theory Spec2Isabelle
  imports Complex_Main "HOL-Library.Word" "HOL-Library.Sublist" "HOL-Library.AList"
begin

section \<open>Data model of the refresh monitor (sdi-refresh-monitor.c)\<close>

text \<open>
  The objects of snapd-glib that the handlers read. Only the getters used by
  sdi-refresh-monitor.c appear as fields. A getter that may return NULL in the
  source and is checked there is an \<open>option\<close>.
\<close>

record SnapdTask =
  task_status :: string
  task_summary :: string
  snapd_task_data :: "string list option option"
    \<comment> \<open>\<open>snapd_task_get_data\<close> (outer option), then
        \<open>snapd_task_data_get_affected_snaps\<close> (inner option)\<close>

record SnapdChange =
  change_id :: string
  change_kind :: string
  change_status :: string
  change_tasks :: "SnapdTask list"
  change_data :: "string list option"
    \<comment> \<open>the auto-refresh change data, NULL or its \<open>snap_names\<close>\<close>

record GAppInfo =
  display_name :: "string option"
  icon :: "string option"

record SnapdSnap =
  snap_name :: "string option"
  proceed_time :: "int option"
    \<comment> \<open>microseconds; \<open>g_date_time_difference\<close> yields 0 on a NULL argument\<close>
  desktop_file :: "GAppInfo option"
    \<comment> \<open>what \<open>sdi_get_desktop_file_from_snap\<close> finds for this snap\<close>

datatype SnapdNoticeType =
    SNAPD_NOTICE_TYPE_UNKNOWN
  | SNAPD_NOTICE_TYPE_CHANGE_UPDATE
  | SNAPD_NOTICE_TYPE_REFRESH_INHIBIT
  | SNAPD_NOTICE_TYPE_SNAP_RUN_INHIBIT

record SnapdNotice =
  notice_type :: SnapdNoticeType
  notice_key :: string
  last_data2 :: "string \<rightharpoonup> string"

datatype gerror = G_IO_ERROR_CANCELLED | G_ERROR_OTHER

text \<open>
  The outcome of a \<open>..._finish\<close> call: the error that was set, or the returned
  pointer (which the handlers also test against NULL).
\<close>

datatype 'a async_result = AsyncError gerror | AsyncValue "'a option"

text \<open>
  A dialog widget. \<open>dialog_ptr\<close> is its address: \<open>contains_child\<close> compares
  widgets by address.
\<close>

record SdiRefreshDialog =
  dialog_ptr :: nat
  app_name :: string
  visible_name :: string
  icon_image :: "string option"

text \<open>
  Modelled from the spec: \<open>SdiSnap\<close> (sdi-snap.c) is not part of the sources.
  The spec's PackageRecord has the fields \<open>name\<close>, \<open>inhibited\<close>, \<open>ignored\<close>,
  \<open>hidden\<close>, \<open>manuallyHidden\<close> and an optional bound dialog; a record that was
  just created has no flag set and no dialog. The getters and setters of the
  source are the field selectors and updates of this record.
\<close>

record SdiSnap =
  sdi_name :: string
  inhibited :: bool
  ignored :: bool
  hidden :: bool
  manually_hidden :: bool
  dialog :: "SdiRefreshDialog option"

definition sdi_snap_new :: "string \<Rightarrow> SdiSnap" where
  "sdi_snap_new name =
     \<lparr>sdi_name = name, inhibited = False, ignored = False, hidden = False,
      manually_hidden = False, dialog = None\<rparr>"

record SnapRefreshData =
  data_change_id :: "string option"
  data_snap_name :: "string option"

definition snap_refresh_data_new :: "string option \<Rightarrow> string option \<Rightarrow> SnapRefreshData" where
  "snap_refresh_data_new cid name = \<lparr>data_change_id = cid, data_snap_name = name\<rparr>"

text \<open>
  \<open>gdouble\<close> values are rationals here (every finite double is one); the
  division of two \<open>guint\<close> counters in double precision is a parameter of the
  model (\<open>gdouble_div\<close> below), so nothing is assumed about its rounding.
\<close>

record SnapProgressTaskData =
  total_tasks :: "32 word"
  done_tasks :: "32 word"
  old_progress :: rat
  is_done :: bool
    \<comment> \<open>the field \<open>done\<close> of the source\<close>
  desktop_files :: "string list option"
    \<comment> \<open>\<open>None\<close> is the NULL that \<open>get_desktop_filenames_for_snap\<close> may return\<close>

text \<open>
  What a handler asks of its collaborators: asynchronous requests to the
  daemon (answered later, in another handler invocation), signals emitted on
  the monitor or on its \<open>SdiNotify\<close> object, updates on the launcher entry
  and progress pushed to a dialog.
  Log output (\<open>g_print\<close>, \<open>g_debug\<close>) is not recorded.
\<close>

datatype callback = Begin_application_refresh | Show_snap_completed

datatype effect =
    Snapd_client_get_change_async string
  | Snapd_client_get_snap_async string callback SnapRefreshData
  | Snapd_client_get_snaps_async
  | Launcher_entry_emit_update string rat bool bool
  | Set_n_tasks_progress SdiRefreshDialog string nat nat
  | Notify_pending_refresh "SnapdSnap list"
  | Notify_pending_refresh_forced nat SnapdSnap int bool
    \<comment> \<open>the first argument is the \<open>SdiNotify\<close> object the signal is emitted on\<close>
  | Notify_refresh_complete "SnapdSnap option" "string option"

text \<open>
  The monitor. The three hash tables are keyed by string contents
  (\<open>g_str_hash\<close>, \<open>g_str_equal\<close>). \<open>refreshing_snap_list\<close> is traversed with
  \<open>g_hash_table_foreach\<close>, so it is an association list; the order of that
  traversal is not specified by GLib and is the order of the list here.
  \<open>notify\<close> is the pointer to the \<open>SdiNotify\<close> object, \<open>None\<close> for NULL; no
  function of the file assigns it.
  The last three fields belong to GLib rather than to the struct: the one-shot
  timeouts that are pending in the main loop with their source ids, the next
  source id, and the next address for a dialog.
\<close>

record SdiRefreshMonitor =
  notify :: "nat option"
  snaps :: "string \<rightharpoonup> SdiSnap"
  changes :: "string \<rightharpoonup> nat"
  refreshing_snap_list :: "(string \<times> SnapProgressTaskData) list"
  main_window :: bool
  refresh_bar_container :: "SdiRefreshDialog list"
  timeouts :: "(nat \<times> SnapRefreshData) list"
  next_source_id :: nat
  next_dialog_ptr :: nat

text \<open>
  What the handlers read from outside the monitor: the double-precision
  division, the listing of /var/lib/snapd/desktop/applications (\<open>None\<close> when
  \<open>g_dir_open\<close> fails), the local time in microseconds, and the two constants
  of sdi-forced-refresh-time-constants.h, which is not part of the sources.
\<close>

record env =
  gdouble_div :: "32 word \<Rightarrow> 32 word \<Rightarrow> rat"
  desktop_applications :: "string list option"
  now_local :: int
  TIME_TO_SHOW_REMAINING_TIME_BEFORE_FORCED_REFRESH :: int
  TIME_TO_SHOW_ALERT_BEFORE_FORCED_REFRESH :: int

text \<open>
  A handler ends the process when it dereferences NULL (\<open>NULL_dereference\<close>).
  The other two values are not outcomes of the code: they mark an event
  sequence that cannot happen, in which a timeout fires that is not pending
  or a dialog is hidden that is not shown.
\<close>

datatype failure = NULL_dereference | No_such_timeout | No_such_dialog


section \<open>Helpers of the monitor\<close>

definition get_remaining_time_in_seconds :: "env \<Rightarrow> SnapdSnap \<Rightarrow> int" where
  "get_remaining_time_in_seconds e snap =
     (let difference = (case proceed_time snap of None \<Rightarrow> 0 | Some t \<Rightarrow> t - now_local e)
      in sgn difference * (\<bar>difference\<bar> div 1000000))"
  \<comment> \<open>C division truncates towards zero\<close>

definition get_desktop_filenames_for_snap :: "env \<Rightarrow> string \<Rightarrow> string list option" where
  "get_desktop_filenames_for_snap e name =
     (case desktop_applications e of
        None \<Rightarrow> None
      | Some filenames \<Rightarrow>
          Some (filter (\<lambda>filename. prefix (name @ ''_'') filename \<and>
                                   suffix ''.desktop'' filename) filenames))"

definition new_progress_task_data :: "env \<Rightarrow> string \<Rightarrow> SnapProgressTaskData" where
  "new_progress_task_data e name =
     \<lparr>total_tasks = 0, done_tasks = 0, old_progress = - 1, is_done = False,
      desktop_files = get_desktop_filenames_for_snap e name\<rparr>"

definition find_snap :: "SdiRefreshMonitor \<Rightarrow> string \<Rightarrow> SdiSnap option" where
  "find_snap self name = snaps self name"

definition add_snap :: "SdiRefreshMonitor \<Rightarrow> string \<Rightarrow> SdiRefreshMonitor \<times> SdiSnap" where
  "add_snap self name =
     (case find_snap self name of
        None \<Rightarrow> (let snap = sdi_snap_new name
                 in (self\<lparr>snaps := (snaps self)(name \<mapsto> snap)\<rparr>, snap))
      | Some snap \<Rightarrow> (self, snap))"

text \<open>
  An \<open>SdiSnap\<close> is an object shared between the table and the handler that
  looked it up; a setter called on it changes the object that the table holds
  under that name.
\<close>

definition sdi_snap_modify ::
  "SdiRefreshMonitor \<Rightarrow> string \<Rightarrow> (SdiSnap \<Rightarrow> SdiSnap) \<Rightarrow> SdiRefreshMonitor" where
  "sdi_snap_modify self name f =
     (case snaps self name of
        None \<Rightarrow> self
      | Some snap \<Rightarrow> self\<lparr>snaps := (snaps self)(name \<mapsto> f snap)\<rparr>)"

fun contains_child :: "SdiRefreshDialog list \<Rightarrow> SdiRefreshDialog \<Rightarrow> bool" where
  "contains_child [] query_child = False"
| "contains_child (child # siblings) query_child =
     (if dialog_ptr query_child = dialog_ptr child then True
      else contains_child siblings query_child)"

definition gtk_box_remove :: "SdiRefreshDialog list \<Rightarrow> SdiRefreshDialog \<Rightarrow> SdiRefreshDialog list" where
  "gtk_box_remove box child = filter (\<lambda>c. dialog_ptr c \<noteq> dialog_ptr child) box"

definition remove_dialog :: "SdiRefreshMonitor \<Rightarrow> SdiRefreshDialog option \<Rightarrow> SdiRefreshMonitor" where
  "remove_dialog self dlg =
     (case dlg of
        None \<Rightarrow> self
      | Some d \<Rightarrow>
          if \<not> contains_child (refresh_bar_container self) d then self
          else (let box = gtk_box_remove (refresh_bar_container self) d
                in if box = [] then self\<lparr>main_window := False, refresh_bar_container := box\<rparr>
                   else self\<lparr>refresh_bar_container := box\<rparr>))"

definition remove_snap :: "SdiRefreshMonitor \<Rightarrow> SdiSnap \<Rightarrow> SdiRefreshMonitor" where
  "remove_snap self snap =
     (let self1 = remove_dialog self (dialog snap)
      in self1\<lparr>snaps := (snaps self1)(sdi_name snap := None)\<rparr>)"

text \<open>
  \<open>close_dialog_cb\<close> calls two setters on the result of \<open>find_snap\<close> without a
  NULL check; the setters are not part of the sources and are taken to return
  at once on NULL, as GObject setters do.
\<close>

definition close_dialog_cb :: "SdiRefreshMonitor \<Rightarrow> SdiRefreshDialog \<Rightarrow> SdiRefreshMonitor" where
  "close_dialog_cb self dlg =
     (let name = app_name dlg;
          self1 = sdi_snap_modify self name (\<lambda>s. s\<lparr>manually_hidden := True\<rparr>);
          self2 = remove_dialog self1 (Some dlg)
      in sdi_snap_modify self2 name (\<lambda>s. s\<lparr>dialog := None\<rparr>))"

definition add_dialog_to_main_window ::
  "SdiRefreshMonitor \<Rightarrow> SdiRefreshDialog \<Rightarrow> SdiRefreshMonitor" where
  "add_dialog_to_main_window self dlg =
     (let self1 = (if \<not> main_window self
                   then self\<lparr>main_window := True, refresh_bar_container := []\<rparr>
                   else self)
      in self1\<lparr>refresh_bar_container := refresh_bar_container self1 @ [dlg]\<rparr>)"

definition sdi_refresh_dialog_new :: "nat \<Rightarrow> string \<Rightarrow> string \<Rightarrow> SdiRefreshDialog" where
  "sdi_refresh_dialog_new p name visible =
     \<lparr>dialog_ptr = p, app_name = name, visible_name = visible, icon_image = None\<rparr>"

text \<open>
  The tail shared by the two branches of \<open>begin_application_refresh\<close>: when the
  snap has no dialog, create one, show it and bind it.
\<close>

definition bind_new_dialog ::
  "SdiRefreshMonitor \<Rightarrow> string \<Rightarrow> string \<Rightarrow> string option \<Rightarrow> SdiRefreshMonitor" where
  "bind_new_dialog self name visible icn =
     (let dlg = (sdi_refresh_dialog_new (next_dialog_ptr self) name visible)\<lparr>icon_image := icn\<rparr>;
          self1 = self\<lparr>next_dialog_ptr := next_dialog_ptr self + 1\<rparr>;
          self2 = add_dialog_to_main_window self1 dlg
      in sdi_snap_modify self2 name (\<lambda>s. s\<lparr>dialog := Some dlg\<rparr>))"

definition begin_application_refresh ::
  "SdiRefreshMonitor \<Rightarrow> SnapRefreshData \<Rightarrow> SnapdSnap async_result
     \<Rightarrow> failure + SdiRefreshMonitor \<times> effect list" where
  "begin_application_refresh self data res =
     (case res of
        AsyncError G_IO_ERROR_CANCELLED \<Rightarrow> Inr (self, [])
      | AsyncValue (Some snap) \<Rightarrow>
          (case snap_name snap of
             None \<Rightarrow> Inl NULL_dereference
           | Some name \<Rightarrow>
               (let (self1, sdi_snap) = add_snap self name
                in case dialog sdi_snap of
                     Some d \<Rightarrow> Inr (self1, [])
                   | None \<Rightarrow>
                       (let visible = (case desktop_file snap of
                                         None \<Rightarrow> None
                                       | Some app_info \<Rightarrow> display_name app_info);
                            icn = (case desktop_file snap of
                                     None \<Rightarrow> None
                                   | Some app_info \<Rightarrow> icon app_info);
                            visible' = (case visible of None \<Rightarrow> name | Some v \<Rightarrow> v)
                        in Inr (bind_new_dialog self1 name visible' icn, []))))
      | _ \<Rightarrow>
          (case data_snap_name data of
             None \<Rightarrow> Inl NULL_dereference
           | Some name \<Rightarrow>
               (let (self1, sdi_snap) = add_snap self name
                in case dialog sdi_snap of
                     Some d \<Rightarrow> Inr (self1, [])
                   | None \<Rightarrow> Inr (bind_new_dialog self1 name name None, []))))"

definition show_snap_completed ::
  "SdiRefreshMonitor \<Rightarrow> SnapRefreshData \<Rightarrow> SnapdSnap async_result
     \<Rightarrow> failure + SdiRefreshMonitor \<times> effect list" where
  "show_snap_completed self data res =
     (case res of
        AsyncError G_IO_ERROR_CANCELLED \<Rightarrow> Inr (self, [])
      | AsyncValue (Some snap) \<Rightarrow> Inr (self, [Notify_refresh_complete (Some snap) None])
      | _ \<Rightarrow> Inr (self, [Notify_refresh_complete None (data_snap_name data)]))"

definition g_timeout_add_once :: "SdiRefreshMonitor \<Rightarrow> SnapRefreshData \<Rightarrow> SdiRefreshMonitor \<times> nat" where
  "g_timeout_add_once self data =
     (self\<lparr>timeouts := timeouts self @ [(next_source_id self, data)],
           next_source_id := next_source_id self + 1\<rparr>, next_source_id self)"

definition refresh_change ::
  "SdiRefreshMonitor \<Rightarrow> SnapRefreshData \<Rightarrow> failure + SdiRefreshMonitor \<times> effect list" where
  "refresh_change self data =
     (case data_change_id data of
        None \<Rightarrow> Inl NULL_dereference
      | Some cid \<Rightarrow>
          Inr (self\<lparr>changes := (changes self)(cid := None)\<rparr>,
               [Snapd_client_get_change_async cid]))"

definition status_is_done :: "string \<Rightarrow> bool" where
  "status_is_done status \<longleftrightarrow>
     status = ''Done'' \<or> status = ''Abort'' \<or> status = ''Error'' \<or>
     status = ''Hold'' \<or> status = ''Wait'' \<or> status = ''Undone''"


section \<open>Inhibited snaps: the progress dialogs\<close>

text \<open>
  The loop over the tasks in \<open>update_inhibited_snaps\<close>: it counts the tasks
  whose status is done and keeps the first task that is not done and whose
  status is "Doing".
\<close>

fun count_done_tasks ::
  "SnapdTask list \<Rightarrow> nat \<Rightarrow> SnapdTask option \<Rightarrow> nat \<times> SnapdTask option" where
  "count_done_tasks [] dn current_task = (dn, current_task)"
| "count_done_tasks (task # tasks) dn current_task =
     (if status_is_done (task_status task) then count_done_tasks tasks (dn + 1) current_task
      else if current_task = None \<and> ''Doing'' = task_status task
        then count_done_tasks tasks dn (Some task)
      else count_done_tasks tasks dn current_task)"

text \<open>The body of the loop over the snap names of an auto-refresh change.\<close>

definition update_inhibited_snap ::
  "SnapdChange \<Rightarrow> bool \<Rightarrow> bool \<Rightarrow> SdiRefreshMonitor \<times> effect list \<Rightarrow> string
     \<Rightarrow> SdiRefreshMonitor \<times> effect list" where
  "update_inhibited_snap change dn cancelled acc name =
     (let (self, effs) = acc
      in case find_snap self name of
           None \<Rightarrow> (self, effs)
         | Some snap \<Rightarrow>
             if \<not> inhibited snap then (self, effs)
             else if dn \<or> cancelled then
               (let self1 = remove_snap self snap;
                    data = snap_refresh_data_new None (Some name)
                in if dn
                   then (self1, effs @ [Snapd_client_get_snap_async name Show_snap_completed data])
                   else (self1, effs))
             else if hidden snap \<or> manually_hidden snap then (self, effs)
             else (case dialog snap of
                     None \<Rightarrow>
                       (let self1 = sdi_snap_modify self name (\<lambda>s. s\<lparr>ignored := True\<rparr>);
                            data = snap_refresh_data_new None (Some name)
                        in (self1, effs @ [Snapd_client_get_snap_async name
                                             Begin_application_refresh data]))
                   | Some dlg \<Rightarrow>
                       (let tasks = change_tasks change;
                            (n_done, current_task) = count_done_tasks tasks 0 None
                        in case current_task of
                             None \<Rightarrow> (self, effs)
                           | Some task \<Rightarrow>
                               (self, effs @ [Set_n_tasks_progress dlg (task_summary task)
                                                n_done (length tasks)]))))"

definition update_inhibited_snaps ::
  "SdiRefreshMonitor \<Rightarrow> SnapdChange \<Rightarrow> bool \<Rightarrow> bool \<Rightarrow> SdiRefreshMonitor \<times> effect list" where
  "update_inhibited_snaps self change dn cancelled =
     (case change_data change of
        None \<Rightarrow> (self, [])
      | Some snap_names \<Rightarrow>
          foldl (update_inhibited_snap change dn cancelled) (self, []) snap_names)"

section \<open>Progress on the launcher entries\<close>

definition update_dock_bar ::
  "env \<Rightarrow> SnapProgressTaskData \<Rightarrow> failure + SnapProgressTaskData \<times> effect list" where
  "update_dock_bar e task_data =
     (if total_tasks task_data = 0 then Inr (task_data, [])
      else
        (let progress = gdouble_div e (done_tasks task_data) (total_tasks task_data);
             task_data1 = task_data\<lparr>done_tasks := 0, total_tasks := 0\<rparr>
         in if progress = old_progress task_data1 \<and> \<not> is_done task_data1
            then Inr (task_data1, [])
            else
              (let task_data2 = task_data1\<lparr>old_progress := progress\<rparr>
               in case desktop_files task_data2 of
                    None \<Rightarrow> Inl NULL_dereference
                  | Some files \<Rightarrow>
                      if length files = 0 then Inr (task_data2, [])
                      else Inr (task_data2,
                                map (\<lambda>desktop_file.
                                       Launcher_entry_emit_update desktop_file progress
                                         (\<not> is_done task_data2) (\<not> is_done task_data2))
                                    files))))"

text \<open>\<open>g_hash_table_foreach (refreshing_snap_list, update_dock_bar, self)\<close>\<close>

fun foreach_update_dock_bar ::
  "env \<Rightarrow> (string \<times> SnapProgressTaskData) list
     \<Rightarrow> failure + (string \<times> SnapProgressTaskData) list \<times> effect list" where
  "foreach_update_dock_bar e [] = Inr ([], [])"
| "foreach_update_dock_bar e ((key, val) # rest) =
     (case update_dock_bar e val of
        Inl f \<Rightarrow> Inl f
      | Inr (val', effs) \<Rightarrow>
          (case foreach_update_dock_bar e rest of
             Inl f \<Rightarrow> Inl f
           | Inr (rest', effs') \<Rightarrow> Inr ((key, val') # rest', effs @ effs')))"

text \<open>
  The body of the loop over the affected snaps of one task. The accumulator
  is the table and the list \<open>snaps_to_remove\<close>.
\<close>

definition update_dock_snap ::
  "env \<Rightarrow> bool \<Rightarrow> bool \<Rightarrow> (string \<times> SnapProgressTaskData) list \<times> string list \<Rightarrow> string
     \<Rightarrow> (string \<times> SnapProgressTaskData) list \<times> string list" where
  "update_dock_snap e task_done done_or_cancelled acc name =
     (let (table, snaps_to_remove) = acc;
          progress_task_data =
            (case map_of table name of
               None \<Rightarrow> new_progress_task_data e name
             | Some d \<Rightarrow> d);
          d1 = progress_task_data\<lparr>total_tasks := total_tasks progress_task_data + 1\<rparr>;
          d2 = d1\<lparr>is_done := task_done\<rparr>;
          d3 = (if task_done then d2\<lparr>done_tasks := done_tasks d2 + 1\<rparr> else d2)
      in (AList.update name d3 table,
          if done_or_cancelled then name # snaps_to_remove else snaps_to_remove))"
  \<comment> \<open>\<open>AList.update\<close> replaces the entry of a key in place and appends a new key\<close>

text \<open>The body of the loop over the tasks of the change.\<close>

definition update_dock_task ::
  "env \<Rightarrow> bool \<Rightarrow> (string \<times> SnapProgressTaskData) list \<times> string list \<Rightarrow> SnapdTask
     \<Rightarrow> (string \<times> SnapProgressTaskData) list \<times> string list" where
  "update_dock_task e done_or_cancelled acc task =
     (case snapd_task_data task of
        None \<Rightarrow> acc
      | Some None \<Rightarrow> acc
      | Some (Some affected_snaps) \<Rightarrow>
          foldl (update_dock_snap e (status_is_done (task_status task)) done_or_cancelled)
                acc affected_snaps)"

definition update_dock_snaps ::
  "env \<Rightarrow> SdiRefreshMonitor \<Rightarrow> SnapdChange \<Rightarrow> bool \<Rightarrow> bool
     \<Rightarrow> failure + SdiRefreshMonitor \<times> effect list" where
  "update_dock_snaps e self change dn cancelled =
     (let (table, snaps_to_remove) =
            foldl (update_dock_task e (dn \<or> cancelled)) (refreshing_snap_list self, [])
                  (change_tasks change)
      in case foreach_update_dock_bar e table of
           Inl f \<Rightarrow> Inl f
         | Inr (table', effs) \<Rightarrow>
             Inr (self\<lparr>refreshing_snap_list :=
                          foldl (\<lambda>t name. AList.delete name t) table' snaps_to_remove\<rparr>,
                  effs))"

section \<open>The change poll\<close>

definition cancelled_change_status :: "string \<Rightarrow> bool" where
  "cancelled_change_status status \<longleftrightarrow>
     status = ''Undoing'' \<or> status = ''Undone'' \<or> status = ''Undo'' \<or> status = ''Error''"

definition valid_working_change_status :: "string \<Rightarrow> bool" where
  "valid_working_change_status status \<longleftrightarrow>
     status = ''Do'' \<or> status = ''Doing'' \<or> status = ''Done''"

text \<open>
  \<open>manage_change_update\<close> in two parts: \<open>manage_classified_change\<close> is what
  the handler does once the status has passed the check, with the flags
  \<open>done\<close> and \<open>cancelled\<close> as computed before it.
\<close>

definition manage_classified_change ::
  "env \<Rightarrow> SdiRefreshMonitor \<Rightarrow> SnapdChange \<Rightarrow> bool \<Rightarrow> bool
     \<Rightarrow> failure + SdiRefreshMonitor \<times> effect list" where
  "manage_classified_change e self change dn cancelled =
     (let (self1, effs1) =
            (if change_kind change = ''auto-refresh''
             then update_inhibited_snaps self change dn cancelled
             else (self, []))
      in case update_dock_snaps e self1 change dn cancelled of
           Inl f \<Rightarrow> Inl f
         | Inr (self2, effs2) \<Rightarrow>
             if \<not> dn \<and> \<not> cancelled \<and> changes self2 (change_id change) = None
             then
               (let data = snap_refresh_data_new (Some (change_id change)) None;
                    (self3, source) = g_timeout_add_once self2 data
                in Inr (self3\<lparr>changes := (changes self3)(change_id change \<mapsto> source)\<rparr>,
                        effs1 @ effs2))
             else Inr (self2, effs1 @ effs2))"

definition manage_change_update ::
  "env \<Rightarrow> SdiRefreshMonitor \<Rightarrow> SnapdChange async_result
     \<Rightarrow> failure + SdiRefreshMonitor \<times> effect list" where
  "manage_change_update e self res =
     (case res of
        AsyncError err \<Rightarrow> Inr (self, [])
      | AsyncValue None \<Rightarrow> Inr (self, [])
      | AsyncValue (Some change) \<Rightarrow>
          (let status = change_status change;
               dn = (status = ''Done'');
               cancelled = cancelled_change_status status;
               valid_do = valid_working_change_status status
           in if \<not> (valid_do \<or> cancelled) then Inr (self, [])
              else manage_classified_change e self change dn cancelled))"

section \<open>Refresh-inhibit notices\<close>

text \<open>
  \<open>notify_check_forced_refresh\<close> emits its signal by name on the \<open>SdiNotify\<close>
  object it is given. \<open>g_signal_emit_by_name\<close> on NULL returns without
  emitting anything; the function still returns TRUE.
\<close>

definition notify_check_forced_refresh ::
  "env \<Rightarrow> nat option \<Rightarrow> SnapdSnap \<Rightarrow> SdiSnap \<Rightarrow> bool \<times> effect list" where
  "notify_check_forced_refresh e self snap snap_data =
     (let next_refresh = get_remaining_time_in_seconds e snap
      in if next_refresh \<le> TIME_TO_SHOW_REMAINING_TIME_BEFORE_FORCED_REFRESH e \<and>
            \<not> ignored snap_data
         then (True, case self of
                       None \<Rightarrow> []
                     | Some obj \<Rightarrow> [Notify_pending_refresh_forced obj snap next_refresh True])
         else if next_refresh \<le> TIME_TO_SHOW_ALERT_BEFORE_FORCED_REFRESH e
         then (True, case self of
                       None \<Rightarrow> []
                     | Some obj \<Rightarrow> [Notify_pending_refresh_forced obj snap next_refresh False])
         else (False, []))"

text \<open>
  The body of the loop over the returned snaps. The accumulator is the
  monitor, \<open>show_grouped_notification\<close>, \<open>snap_list\<close> and the signals emitted
  so far (on \<open>self->notify\<close> by \<open>notify_check_forced_refresh\<close>). \<open>add_snap\<close> always returns a record, so the test of \<open>snap_data\<close>
  against NULL has no branch here.
\<close>

definition refresh_inhibit_snap ::
  "env \<Rightarrow> SdiRefreshMonitor \<times> bool \<times> SnapdSnap list \<times> effect list \<Rightarrow> SnapdSnap
     \<Rightarrow> SdiRefreshMonitor \<times> bool \<times> SnapdSnap list \<times> effect list" where
  "refresh_inhibit_snap e acc snap =
     (let (self, show_grouped_notification, snap_list, effs) = acc
      in case snap_name snap of
           None \<Rightarrow> acc
         | Some name \<Rightarrow>
             (let (self1, snap_data0) = add_snap self name;
                  self2 = sdi_snap_modify self1 name (\<lambda>s. s\<lparr>inhibited := True\<rparr>);
                  snap_data = snap_data0\<lparr>inhibited := True\<rparr>;
                  show1 = (if \<not> ignored snap_data then True else show_grouped_notification)
              in (self2, show1, snap_list @ [snap],
                  effs @ snd (notify_check_forced_refresh e (notify self2) snap snap_data))))"

definition manage_refresh_inhibit ::
  "env \<Rightarrow> SdiRefreshMonitor \<Rightarrow> SnapdSnap list async_result
     \<Rightarrow> failure + SdiRefreshMonitor \<times> effect list" where
  "manage_refresh_inhibit e self res =
     (case res of
        AsyncError err \<Rightarrow> Inr (self, [])
      | AsyncValue None \<Rightarrow> Inl NULL_dereference
      | AsyncValue (Some snaps_arr) \<Rightarrow>
          if length snaps_arr = 0 then Inr (self, [])
          else
            (let (self1, show_grouped_notification, snap_list, effs) =
                   foldl (refresh_inhibit_snap e) (self, False, [], []) snaps_arr
             in if show_grouped_notification
                then Inr (self1, effs @ [Notify_pending_refresh snap_list])
                else Inr (self1, effs)))"

section \<open>The notice dispatcher\<close>

text \<open>
  \<open>kind\<close> is looked up before the switch and may be NULL; \<open>g_str_equal\<close> on
  NULL dereferences it.
\<close>

definition notice_cb ::
  "SdiRefreshMonitor \<Rightarrow> SnapdNotice \<Rightarrow> bool \<Rightarrow> failure + SdiRefreshMonitor \<times> effect list" where
  "notice_cb self notice first_run =
     (let kind = last_data2 notice ''kind''
      in case notice_type notice of
           SNAPD_NOTICE_TYPE_CHANGE_UPDATE \<Rightarrow>
             if first_run then Inr (self, [])
             else (case kind of
                     None \<Rightarrow> Inl NULL_dereference
                   | Some k \<Rightarrow>
                       if k \<noteq> ''auto-refresh'' \<and> k \<noteq> ''refresh-snap'' then Inr (self, [])
                       else Inr (self, [Snapd_client_get_change_async (notice_key notice)]))
         | SNAPD_NOTICE_TYPE_REFRESH_INHIBIT \<Rightarrow> Inr (self, [Snapd_client_get_snaps_async])
         | SNAPD_NOTICE_TYPE_SNAP_RUN_INHIBIT \<Rightarrow> Inr (self, [])
         | SNAPD_NOTICE_TYPE_UNKNOWN \<Rightarrow> Inr (self, []))"
  \<comment> \<open>\<open>SNAPD_NOTICE_TYPE_UNKNOWN\<close> stands for every value that takes the default branch\<close>

definition sdi_refresh_monitor_ignore_snap_cb :: "SdiRefreshMonitor \<Rightarrow> string \<Rightarrow> SdiRefreshMonitor" where
  "sdi_refresh_monitor_ignore_snap_cb self name =
     (let (self1, snap) = add_snap self name
      in sdi_snap_modify self1 name (\<lambda>s. s\<lparr>ignored := True\<rparr>))"

definition sdi_refresh_monitor_init :: SdiRefreshMonitor where
  "sdi_refresh_monitor_init =
     \<lparr>notify = None, snaps = Map.empty, changes = Map.empty, refreshing_snap_list = [],
      main_window = False, refresh_bar_container = [],
      timeouts = [], next_source_id = 1, next_dialog_ptr = 1\<rparr>"

section \<open>The event loop\<close>

text \<open>
  Every handler runs to completion on the main loop, one after the other. An
  event is one invocation of a handler with what the outside world hands to
  it: a notice, the completion of an asynchronous request (with any result,
  at any time), a pending timeout that fires, or an action of the user. The
  connection supervisor (\<open>error_cb\<close>, \<open>configure_snapd_monitor\<close>) touches none
  of the tables and is left out.
\<close>

datatype event =
    Notice_event SnapdNotice bool
  | Change_finished env "SnapdChange async_result"
  | Timeout_fired nat
  | Snap_finished_begin SnapRefreshData "SnapdSnap async_result"
  | Snap_finished_completed SnapRefreshData "SnapdSnap async_result"
  | Snaps_finished env "SnapdSnap list async_result"
  | Dialog_hidden SdiRefreshDialog
  | Ignore_snap string

definition dispatch :: "SdiRefreshMonitor \<Rightarrow> event \<Rightarrow> failure + SdiRefreshMonitor \<times> effect list" where
  "dispatch self ev =
     (case ev of
        Notice_event notice first_run \<Rightarrow> notice_cb self notice first_run
      | Change_finished e res \<Rightarrow> manage_change_update e self res
      | Timeout_fired source \<Rightarrow>
          (case map_of (timeouts self) source of
             None \<Rightarrow> Inl No_such_timeout
           | Some data \<Rightarrow>
               refresh_change (self\<lparr>timeouts := remove1 (source, data) (timeouts self)\<rparr>) data)
      | Snap_finished_begin data res \<Rightarrow> begin_application_refresh self data res
      | Snap_finished_completed data res \<Rightarrow> show_snap_completed self data res
      | Snaps_finished e res \<Rightarrow> manage_refresh_inhibit e self res
      | Dialog_hidden dlg \<Rightarrow>
          if dlg \<in> set (refresh_bar_container self)
          then Inr (close_dialog_cb self dlg, [])
          else Inl No_such_dialog
      | Ignore_snap name \<Rightarrow> Inr (sdi_refresh_monitor_ignore_snap_cb self name, []))"

fun run :: "SdiRefreshMonitor \<Rightarrow> event list \<Rightarrow> failure + SdiRefreshMonitor \<times> effect list" where
  "run self [] = Inr (self, [])"
| "run self (ev # evs) =
     (case dispatch self ev of
        Inl f \<Rightarrow> Inl f
      | Inr (self1, effs) \<Rightarrow>
          (case run self1 evs of
             Inl f \<Rightarrow> Inl f
           | Inr (self2, effs') \<Rightarrow> Inr (self2, effs @ effs')))"


section \<open>Invariants and example inputs\<close>

text \<open>
  The pending poll timeouts and the table \<open>changes\<close> describe each other:
  source ids are not reused, every pending timeout carries a change id, no
  two of them carry the same one, and a change id is a key of \<open>changes\<close>
  exactly when a timeout for it is pending.
\<close>

definition timers_inv :: "SdiRefreshMonitor \<Rightarrow> bool" where
  "timers_inv self \<longleftrightarrow>
     distinct (map fst (timeouts self)) \<and>
     distinct (map (\<lambda>t. data_change_id (snd t)) (timeouts self)) \<and>
     (\<forall>t \<in> set (timeouts self). fst t < next_source_id self \<and> data_change_id (snd t) \<noteq> None) \<and>
     (\<forall>cid. changes self cid \<noteq> None \<longleftrightarrow>
            Some cid \<in> set (map (\<lambda>t. data_change_id (snd t)) (timeouts self)))"

text \<open>
  The dialogs on screen and the snaps describe each other: no widget is in the
  container twice, every widget there was allocated before, it is the dialog
  bound to the snap it names, and every snap is stored under its own name.
\<close>

definition dialogs_inv :: "SdiRefreshMonitor \<Rightarrow> bool" where
  "dialogs_inv self \<longleftrightarrow>
     distinct (map dialog_ptr (refresh_bar_container self)) \<and>
     (\<forall>d \<in> set (refresh_bar_container self).
        dialog_ptr d < next_dialog_ptr self \<and>
        (\<exists>s. snaps self (app_name d) = Some s \<and> dialog s = Some d)) \<and>
     (\<forall>n s. snaps self n = Some s \<longrightarrow> sdi_name s = n)"

text \<open>
  A snap is marked ignored when it has a record whose flag \<open>ignored\<close> is set;
  a snap without a record is not.
\<close>

definition marked_ignored :: "SdiRefreshMonitor \<Rightarrow> string \<Rightarrow> bool" where
  "marked_ignored self name = (case snaps self name of None \<Rightarrow> False | Some s \<Rightarrow> ignored s)"

text \<open>
  What the specification says of one snap named by an auto-refresh change
  that is neither done nor cancelled. A snap awaits its dialog when it is
  inhibited, not hidden and has no dialog; it is then marked ignored and
  queried. A snap that is inhibited, not hidden and has a dialog gets the
  progress pushed: the summary of the first task whose status is "Doing" with
  the number of done tasks and the number of all tasks, nothing when no task
  is "Doing". Any other snap, and a name without a record, is passed over.
\<close>

definition awaits_dialog :: "SdiSnap \<Rightarrow> bool" where
  "awaits_dialog snap \<longleftrightarrow>
     inhibited snap \<and> \<not> hidden snap \<and> \<not> manually_hidden snap \<and> dialog snap = None"

definition spec_progress_push :: "SnapdChange \<Rightarrow> SdiRefreshDialog \<Rightarrow> effect list" where
  "spec_progress_push change dlg =
     (case find (\<lambda>t. task_status t = ''Doing'') (change_tasks change) of
        None \<Rightarrow> []
      | Some t \<Rightarrow>
          [Set_n_tasks_progress dlg (task_summary t)
             (length (filter (\<lambda>t. status_is_done (task_status t)) (change_tasks change)))
             (length (change_tasks change))])"

definition spec_snap_effects :: "SdiRefreshMonitor \<Rightarrow> SnapdChange \<Rightarrow> string \<Rightarrow> effect list" where
  "spec_snap_effects self change name =
     (case snaps self name of
        None \<Rightarrow> []
      | Some snap \<Rightarrow>
          if \<not> inhibited snap \<or> hidden snap \<or> manually_hidden snap then []
          else (case dialog snap of
                  None \<Rightarrow> [Snapd_client_get_snap_async name Begin_application_refresh
                             (snap_refresh_data_new None (Some name))]
                | Some dlg \<Rightarrow> spec_progress_push change dlg))"

definition mark_awaiting :: "SdiRefreshMonitor \<Rightarrow> string set \<Rightarrow> string \<rightharpoonup> SdiSnap" where
  "mark_awaiting self names =
     (\<lambda>name. case snaps self name of
                None \<Rightarrow> None
              | Some snap \<Rightarrow>
                  if name \<in> names \<and> awaits_dialog snap then Some (snap\<lparr>ignored := True\<rparr>)
                  else Some snap)"

text \<open>
  The aggregation pass over one progress entry in the words of the
  specification: the fraction of done tasks, when the emission is suppressed,
  the entry after the pass (an entry without tasks is skipped; otherwise both
  counters are reset and the last emitted fraction is the new one when an
  emission took place), and the update emitted to the targets. The targets
  of an entry are the desktop files captured at its creation, none when the
  array is NULL.
\<close>

definition presentation_targets :: "SnapProgressTaskData \<Rightarrow> string list" where
  "presentation_targets entry = (case desktop_files entry of None \<Rightarrow> [] | Some files \<Rightarrow> files)"

definition spec_fraction :: "env \<Rightarrow> SnapProgressTaskData \<Rightarrow> rat" where
  "spec_fraction e entry = gdouble_div e (done_tasks entry) (total_tasks entry)"

definition spec_suppressed :: "env \<Rightarrow> SnapProgressTaskData \<Rightarrow> bool" where
  "spec_suppressed e entry \<longleftrightarrow> spec_fraction e entry = old_progress entry \<and> \<not> is_done entry"

definition spec_entry_after :: "env \<Rightarrow> SnapProgressTaskData \<Rightarrow> SnapProgressTaskData" where
  "spec_entry_after e entry =
     (if total_tasks entry = 0 then entry
      else entry\<lparr>total_tasks := 0, done_tasks := 0,
                 old_progress := (if spec_suppressed e entry then old_progress entry
                                  else spec_fraction e entry)\<rparr>)"

definition spec_emission :: "env \<Rightarrow> SnapProgressTaskData \<Rightarrow> string list \<Rightarrow> effect list" where
  "spec_emission e entry targets =
     (if total_tasks entry = 0 \<or> spec_suppressed e entry then []
      else map (\<lambda>target. Launcher_entry_emit_update target (spec_fraction e entry)
                          (\<not> is_done entry) (\<not> is_done entry))
               targets)"

text \<open>
  The quotient of two \<open>guint\<close> values in double precision. Both convert to
  doubles exactly; the quotient \<open>a / b\<close> is rounded to the nearest number
  \<open>m / 2 ^ p\<close> whose significand \<open>m\<close> has 53 bits, a tie going to the even
  significand. The exponent \<open>p\<close> is the least one that brings the integer
  part of \<open>a * 2 ^ p / b\<close> up to \<open>2 ^ 52\<close>; with values below \<open>2 ^ 32\<close> it is
  at most 84, far inside the range of a double. The value at \<open>b = 0\<close> (an
  infinity or NaN in C) is never asked for: \<open>update_dock_bar\<close> returns before
  it divides.
\<close>

fun double_exponent_from :: "nat \<Rightarrow> int \<Rightarrow> int \<Rightarrow> nat \<Rightarrow> nat" where
  "double_exponent_from 0 a b p = p"
| "double_exponent_from (Suc k) a b p =
     (if a * 2 ^ p div b < 2 ^ 52 then double_exponent_from k a b (Suc p) else p)"

definition double_exponent :: "int \<Rightarrow> int \<Rightarrow> nat" where
  "double_exponent a b = double_exponent_from 84 a b 0"

definition round_quotient :: "int \<Rightarrow> int \<Rightarrow> int" where
  "round_quotient n b =
     (let q = n div b; r = n mod b
      in if b < 2 * r \<or> (2 * r = b \<and> odd q) then q + 1 else q)"

definition gdouble_quotient :: "32 word \<Rightarrow> 32 word \<Rightarrow> rat" where
  "gdouble_quotient x y =
     (let a = uint x; b = uint y
      in if a = 0 \<or> b = 0 then 0
         else of_int (round_quotient (a * 2 ^ double_exponent a b) b) /
              2 ^ double_exponent a b)"

definition env0 :: env where
  "env0 = \<lparr>gdouble_div = gdouble_quotient,
           desktop_applications = Some [''firefox_firefox.desktop'', ''vlc_vlc.desktop''],
           now_local = 0,
           TIME_TO_SHOW_REMAINING_TIME_BEFORE_FORCED_REFRESH = 259200,
           TIME_TO_SHOW_ALERT_BEFORE_FORCED_REFRESH = 3600\<rparr>"

text \<open>
  A change with the id 7 whose three tasks (Done, Doing, Do) all affect the
  snap firefox.
\<close>

definition change7 :: "string \<Rightarrow> string \<Rightarrow> SnapdChange" where
  "change7 kind status =
     \<lparr>change_id = ''7'', change_kind = kind, change_status = status,
      change_tasks =
        [\<lparr>task_status = ''Done'', task_summary = ''Download'',
          snapd_task_data = Some (Some [''firefox''])\<rparr>,
         \<lparr>task_status = ''Doing'', task_summary = ''Mount'',
          snapd_task_data = Some (Some [''firefox''])\<rparr>,
         \<lparr>task_status = ''Do'', task_summary = ''Link'',
          snapd_task_data = Some (Some [''firefox''])\<rparr>],
      change_data = Some [''firefox'']\<rparr>"

text \<open>Two updates of the same change arrive one after the other, both still running.\<close>

definition two_updates :: "event list" where
  "two_updates =
     [Change_finished env0 (AsyncValue (Some (change7 ''refresh-snap'' ''Doing''))),
      Change_finished env0 (AsyncValue (Some (change7 ''refresh-snap'' ''Doing'')))]"

text \<open>
  A running update of change 7 (which arms the poll), then an update of the
  same change, now finished with the status Done, that resolves before the
  timeout fires.
\<close>

definition finished7 :: SnapdChange where
  "finished7 =
     \<lparr>change_id = ''7'', change_kind = ''refresh-snap'', change_status = ''Done'',
      change_tasks =
        [\<lparr>task_status = ''Done'', task_summary = ''Download'',
          snapd_task_data = Some (Some [''firefox''])\<rparr>,
         \<lparr>task_status = ''Done'', task_summary = ''Mount'',
          snapd_task_data = Some (Some [''firefox''])\<rparr>,
         \<lparr>task_status = ''Done'', task_summary = ''Link'',
          snapd_task_data = Some (Some [''firefox''])\<rparr>],
      change_data = None\<rparr>"

definition running_then_done :: "event list" where
  "running_then_done =
     [Change_finished env0 (AsyncValue (Some (change7 ''refresh-snap'' ''Doing''))),
      Change_finished env0 (AsyncValue (Some finished7))]"

definition notice7 :: "SnapdNoticeType \<Rightarrow> SnapdNotice" where
  "notice7 ty =
     \<lparr>notice_type = ty, notice_key = ''7'', last_data2 = [''kind'' \<mapsto> ''auto-refresh'']\<rparr>"

text \<open>
  The snap firefox as the daemon reports it, and the data handed to the
  completion of a query about it.
\<close>

definition firefox_snap :: SnapdSnap where
  "firefox_snap =
     \<lparr>snap_name = Some ''firefox'', proceed_time = Some 7200000000,
      desktop_file = Some \<lparr>display_name = Some ''Firefox'', icon = Some ''firefox.png''\<rparr>\<rparr>"

definition firefox_data :: SnapRefreshData where
  "firefox_data = snap_refresh_data_new None (Some ''firefox'')"

text \<open>
  firefox is reported as inhibited; two updates of the running auto-refresh
  change 7 arrive before the first query about firefox completes; then the
  first query completes.
\<close>

definition slow_query_race :: "event list" where
  "slow_query_race =
     [Snaps_finished env0 (AsyncValue (Some [firefox_snap])),
      Change_finished env0 (AsyncValue (Some (change7 ''auto-refresh'' ''Doing''))),
      Change_finished env0 (AsyncValue (Some (change7 ''auto-refresh'' ''Doing''))),
      Snap_finished_begin firefox_data (AsyncValue (Some firefox_snap))]"

definition firefox_dialog :: SdiRefreshDialog where
  "firefox_dialog =
     \<lparr>dialog_ptr = 1, app_name = ''firefox'', visible_name = ''Firefox'',
      icon_image = Some ''firefox.png''\<rparr>"

text \<open>The monitor with firefox inhibited, before any dialog exists.\<close>

definition firefox_inhibited :: SdiRefreshMonitor where
  "firefox_inhibited =
     sdi_refresh_monitor_init
       \<lparr>snaps := [''firefox'' \<mapsto> (sdi_snap_new ''firefox'')\<lparr>inhibited := True\<rparr>]\<rparr>"

text \<open>The monitor with firefox inhibited and its dialog on screen.\<close>

definition firefox_shown :: SdiRefreshMonitor where
  "firefox_shown =
     sdi_refresh_monitor_init
       \<lparr>snaps := [''firefox'' \<mapsto>
                   (sdi_snap_new ''firefox'')\<lparr>inhibited := True, ignored := True,
                                              dialog := Some firefox_dialog\<rparr>],
        main_window := True, refresh_bar_container := [firefox_dialog],
        next_dialog_ptr := 2\<rparr>"

text \<open>A snap that the daemon reports without a name.\<close>

definition unnamed_snap :: SnapdSnap where
  "unnamed_snap = \<lparr>snap_name = None, proceed_time = None, desktop_file = None\<rparr>"

definition vlc_snap :: SnapdSnap where
  "vlc_snap = \<lparr>snap_name = Some ''vlc'', proceed_time = Some 864000000000, desktop_file = None\<rparr>"

text \<open>The monitor in which the user asked to ignore vlc.\<close>

definition vlc_ignored :: SdiRefreshMonitor where
  "vlc_ignored = sdi_refresh_monitor_ignore_snap_cb sdi_refresh_monitor_init ''vlc''"

text \<open>
  Four progress entries before the emission pass: 3 of 10 tasks done for the
  first time; 3 of 10 again, as emitted before; all 10 done after 1 had been
  emitted while the entry was not yet terminal; and an entry without tasks.
\<close>

definition four_entries :: "(string \<times> SnapProgressTaskData) list" where
  "four_entries =
     [(''firefox'', \<lparr>total_tasks = 10, done_tasks = 3, old_progress = - 1, is_done = False,
                     desktop_files = Some [''firefox_firefox.desktop'']\<rparr>),
      (''vlc'', \<lparr>total_tasks = 10, done_tasks = 3, old_progress = gdouble_quotient 3 10,
                 is_done = False,
                 desktop_files = Some [''vlc_vlc.desktop'']\<rparr>),
      (''gimp'', \<lparr>total_tasks = 10, done_tasks = 10, old_progress = 1, is_done = True,
                  desktop_files = Some [''gimp_gimp.desktop'', ''gimp_console.desktop'']\<rparr>),
      (''core'', \<lparr>total_tasks = 0, done_tasks = 0, old_progress = 1, is_done = True,
                  desktop_files = Some []\<rparr>)]"

text \<open>The applications directory cannot be opened.\<close>

definition env_no_dir :: env where
  "env_no_dir = env0\<lparr>desktop_applications := None\<rparr>"


section \<open>What the handlers leave unchanged\<close>

lemma remove_dialog_frame:
  "changes (remove_dialog self d) = changes self"
  "timeouts (remove_dialog self d) = timeouts self"
  "next_source_id (remove_dialog self d) = next_source_id self"
  "snaps (remove_dialog self d) = snaps self"
  "refreshing_snap_list (remove_dialog self d) = refreshing_snap_list self"
  by (simp_all add: remove_dialog_def Let_def split: option.splits)

lemma sdi_snap_modify_frame:
  "changes (sdi_snap_modify self n f) = changes self"
  "timeouts (sdi_snap_modify self n f) = timeouts self"
  "next_source_id (sdi_snap_modify self n f) = next_source_id self"
  "refreshing_snap_list (sdi_snap_modify self n f) = refreshing_snap_list self"
  "main_window (sdi_snap_modify self n f) = main_window self"
  "refresh_bar_container (sdi_snap_modify self n f) = refresh_bar_container self"
  "next_dialog_ptr (sdi_snap_modify self n f) = next_dialog_ptr self"
  by (simp_all add: sdi_snap_modify_def split: option.splits)

lemma add_snap_frame:
  "changes (fst (add_snap self n)) = changes self"
  "timeouts (fst (add_snap self n)) = timeouts self"
  "next_source_id (fst (add_snap self n)) = next_source_id self"
  "refreshing_snap_list (fst (add_snap self n)) = refreshing_snap_list self"
  "main_window (fst (add_snap self n)) = main_window self"
  "refresh_bar_container (fst (add_snap self n)) = refresh_bar_container self"
  "next_dialog_ptr (fst (add_snap self n)) = next_dialog_ptr self"
  by (simp_all add: add_snap_def Let_def split: option.splits)

lemma update_inhibited_snap_frame:
  "changes (fst (update_inhibited_snap change dn c acc n)) = changes (fst acc)"
  "timeouts (fst (update_inhibited_snap change dn c acc n)) = timeouts (fst acc)"
  "next_source_id (fst (update_inhibited_snap change dn c acc n)) = next_source_id (fst acc)"
  "refreshing_snap_list (fst (update_inhibited_snap change dn c acc n)) = refreshing_snap_list (fst acc)"
  by (cases acc; simp add: update_inhibited_snap_def Let_def remove_snap_def
        remove_dialog_frame sdi_snap_modify_frame split: option.splits prod.splits)+

lemma foldl_update_inhibited_snap_frame:
  "changes (fst (foldl (update_inhibited_snap change dn c) acc ns)) = changes (fst acc)"
  "timeouts (fst (foldl (update_inhibited_snap change dn c) acc ns)) = timeouts (fst acc)"
  "next_source_id (fst (foldl (update_inhibited_snap change dn c) acc ns)) = next_source_id (fst acc)"
  "refreshing_snap_list (fst (foldl (update_inhibited_snap change dn c) acc ns)) = refreshing_snap_list (fst acc)"
  by (induction ns arbitrary: acc; simp add: update_inhibited_snap_frame)+

lemma update_inhibited_snaps_frame:
  "changes (fst (update_inhibited_snaps self change dn c)) = changes self"
  "timeouts (fst (update_inhibited_snaps self change dn c)) = timeouts self"
  "next_source_id (fst (update_inhibited_snaps self change dn c)) = next_source_id self"
  "refreshing_snap_list (fst (update_inhibited_snaps self change dn c)) = refreshing_snap_list self"
  by (simp_all add: update_inhibited_snaps_def foldl_update_inhibited_snap_frame split: option.splits)

lemma update_dock_snaps_frame:
  assumes "update_dock_snaps e self change dn c = Inr (self', effs)"
  shows "\<exists>t. self' = self\<lparr>refreshing_snap_list := t\<rparr>"
  using assms
  by (auto simp: update_dock_snaps_def Let_def split: prod.splits sum.splits)

text \<open>
  What \<open>manage_classified_change\<close> does to the pending timeouts and to
  \<open>changes\<close>: one timeout more when the change is still running and has no
  entry, nothing otherwise.
\<close>

lemma manage_classified_change_timeouts:
  assumes "manage_classified_change e self change dn c = Inr (self', effs)"
  shows "if \<not> dn \<and> \<not> c \<and> changes self (change_id change) = None
         then timeouts self' = timeouts self @ [(next_source_id self, snap_refresh_data_new (Some (change_id change)) None)]
            \<and> changes self' = (changes self)(change_id change \<mapsto> next_source_id self)
            \<and> next_source_id self' = next_source_id self + 1
         else timeouts self' = timeouts self \<and> changes self' = changes self
            \<and> next_source_id self' = next_source_id self"
proof -
  obtain self1 effs1 where s1: "(if change_kind change = ''auto-refresh''
             then update_inhibited_snaps self change dn c
             else (self, [])) = (self1, effs1)"
    by (cases "(if change_kind change = ''auto-refresh''
             then update_inhibited_snaps self change dn c
             else (self, []))") auto
  have f1: "changes self1 = changes self" "timeouts self1 = timeouts self"
     "next_source_id self1 = next_source_id self"
    using s1 update_inhibited_snaps_frame[of self change dn c]
    by (auto split: if_splits)
  from assms s1 obtain self2 effs2 where
    s2: "update_dock_snaps e self1 change dn c = Inr (self2, effs2)"
    by (auto simp: manage_classified_change_def split: sum.splits)
  from update_dock_snaps_frame[OF s2] obtain t where t: "self2 = self1\<lparr>refreshing_snap_list := t\<rparr>" ..
  show ?thesis
    using assms s1 s2 f1 t
    by (auto simp: manage_classified_change_def g_timeout_add_once_def Let_def
             split: if_splits)
qed


lemma bind_new_dialog_frame:
  "changes (bind_new_dialog self n v i) = changes self"
  "timeouts (bind_new_dialog self n v i) = timeouts self"
  "next_source_id (bind_new_dialog self n v i) = next_source_id self"
  by (simp_all add: bind_new_dialog_def Let_def sdi_snap_modify_frame add_dialog_to_main_window_def)

lemma begin_application_refresh_result:
  assumes "begin_application_refresh self data res = Inr (self', effs)"
  shows "self' = self \<or>
    (\<exists>n v i. self' = (case dialog (snd (add_snap self n)) of
                        Some d \<Rightarrow> fst (add_snap self n)
                      | None \<Rightarrow> bind_new_dialog (fst (add_snap self n)) n v i))"
proof (cases "\<exists>snap. res = AsyncValue (Some snap)")
  case True
  then obtain snap where res: "res = AsyncValue (Some snap)" by blast
  show ?thesis
  proof (cases "snap_name snap")
    case None
    with assms res show ?thesis by (simp add: begin_application_refresh_def)
  next
    case (Some n)
    let ?v = "case (case desktop_file snap of None \<Rightarrow> None
                    | Some app_info \<Rightarrow> display_name app_info) of
                None \<Rightarrow> n | Some v \<Rightarrow> v"
    let ?i = "case desktop_file snap of None \<Rightarrow> None | Some app_info \<Rightarrow> icon app_info"
    from assms res Some
    have "self' = (case dialog (snd (add_snap self n)) of
                        Some d \<Rightarrow> fst (add_snap self n)
                      | None \<Rightarrow> bind_new_dialog (fst (add_snap self n)) n ?v ?i)"
      by (auto simp: begin_application_refresh_def Let_def case_prod_beta split: option.splits)
    then show ?thesis by blast
  qed
next
  case False
  show ?thesis
  proof (cases "res = AsyncError G_IO_ERROR_CANCELLED")
    case True
    with assms show ?thesis by (simp add: begin_application_refresh_def)
  next
    case nc: False
    from False nc have fb: "begin_application_refresh self data res =
      (case data_snap_name data of
         None \<Rightarrow> Inl NULL_dereference
       | Some name \<Rightarrow>
           (let (self1, sdi_snap) = add_snap self name
            in case dialog sdi_snap of
                 Some d \<Rightarrow> Inr (self1, [])
               | None \<Rightarrow> Inr (bind_new_dialog self1 name name None, [])))"
      by (auto simp: begin_application_refresh_def
            split: async_result.splits gerror.splits option.splits)
    show ?thesis
    proof (cases "data_snap_name data")
      case None
      with assms fb show ?thesis by simp
    next
      case (Some n)
      with assms fb
      have "self' = (case dialog (snd (add_snap self n)) of
                        Some d \<Rightarrow> fst (add_snap self n)
                      | None \<Rightarrow> bind_new_dialog (fst (add_snap self n)) n n None)"
        by (auto simp: Let_def case_prod_beta split: option.splits)
      then show ?thesis by blast
    qed
  qed
qed

lemma begin_application_refresh_frame:
  assumes "begin_application_refresh self data res = Inr (self', effs)"
  shows "changes self' = changes self \<and> timeouts self' = timeouts self
       \<and> next_source_id self' = next_source_id self"
  using begin_application_refresh_result[OF assms]
  by (auto simp: add_snap_frame bind_new_dialog_frame split: option.splits)

lemma refresh_inhibit_snap_frame:
  "changes (fst (refresh_inhibit_snap e acc snap)) = changes (fst acc)"
  "timeouts (fst (refresh_inhibit_snap e acc snap)) = timeouts (fst acc)"
  "next_source_id (fst (refresh_inhibit_snap e acc snap)) = next_source_id (fst acc)"
  by (cases acc; simp add: refresh_inhibit_snap_def Let_def case_prod_beta
        sdi_snap_modify_frame add_snap_frame split: option.splits)+

lemma foldl_refresh_inhibit_snap_frame:
  "changes (fst (foldl (refresh_inhibit_snap e) acc xs)) = changes (fst acc)"
  "timeouts (fst (foldl (refresh_inhibit_snap e) acc xs)) = timeouts (fst acc)"
  "next_source_id (fst (foldl (refresh_inhibit_snap e) acc xs)) = next_source_id (fst acc)"
  by (induction xs arbitrary: acc; simp add: refresh_inhibit_snap_frame)+

lemma manage_refresh_inhibit_result:
  assumes "manage_refresh_inhibit e self res = Inr (self', effs)"
  shows "self' = self \<or>
      (\<exists>arr. self' = fst (foldl (refresh_inhibit_snap e) (self, False, [], []) arr))"
  using assms
  by (auto simp: manage_refresh_inhibit_def Let_def case_prod_beta
        split: async_result.splits option.splits if_splits)


lemma manage_refresh_inhibit_frame:
  assumes "manage_refresh_inhibit e self res = Inr (self', effs)"
  shows "changes self' = changes self \<and> timeouts self' = timeouts self
       \<and> next_source_id self' = next_source_id self"
  using manage_refresh_inhibit_result[OF assms]
  by (auto simp: foldl_refresh_inhibit_snap_frame)

lemma close_dialog_cb_frame:
  "changes (close_dialog_cb self d) = changes self"
  "timeouts (close_dialog_cb self d) = timeouts self"
  "next_source_id (close_dialog_cb self d) = next_source_id self"
  by (simp_all add: close_dialog_cb_def Let_def sdi_snap_modify_frame remove_dialog_frame)

lemma ignore_snap_cb_frame:
  "changes (sdi_refresh_monitor_ignore_snap_cb self n) = changes self"
  "timeouts (sdi_refresh_monitor_ignore_snap_cb self n) = timeouts self"
  "next_source_id (sdi_refresh_monitor_ignore_snap_cb self n) = next_source_id self"
  by (simp_all add: sdi_refresh_monitor_ignore_snap_cb_def case_prod_beta
        sdi_snap_modify_frame add_snap_frame)

lemma notice_cb_state:
  "notice_cb self notice fr = Inr (self', effs) \<Longrightarrow> self' = self"
  by (auto simp: notice_cb_def Let_def split: SnapdNoticeType.splits if_splits option.splits)

lemma show_snap_completed_state:
  "show_snap_completed self data res = Inr (self', effs) \<Longrightarrow> self' = self"
  by (auto simp: show_snap_completed_def split: async_result.splits gerror.splits option.splits)

section \<open>The poll timers\<close>

lemma timers_inv_frame:
  assumes "timers_inv self" "changes self' = changes self" "timeouts self' = timeouts self"
    "next_source_id self' = next_source_id self"
  shows "timers_inv self'"
  using assms by (simp add: timers_inv_def)

lemma timers_inv_manage_change_update:
  assumes inv: "timers_inv self"
    and r: "manage_change_update e self res = Inr (self', effs)"
  shows "timers_inv self'"
proof (cases "\<exists>change dn c. manage_classified_change e self change dn c = Inr (self', effs)")
  case False
  with r have "self' = self"
    by (auto simp: manage_change_update_def Let_def
          split: async_result.splits option.splits if_splits)
  with inv show ?thesis by simp
next
  case True
  then obtain change dn c where m: "manage_classified_change e self change dn c = Inr (self', effs)"
    by blast
  let ?cid = "change_id change"
  show ?thesis
  proof (cases "\<not> dn \<and> \<not> c \<and> changes self ?cid = None")
    case False
    with manage_classified_change_timeouts[OF m] inv show ?thesis
      by (auto intro: timers_inv_frame)
  next
    case True
    with manage_classified_change_timeouts[OF m]
    have t: "timeouts self' = timeouts self @ [(next_source_id self, snap_refresh_data_new (Some ?cid) None)]"
      and ch: "changes self' = (changes self)(?cid \<mapsto> next_source_id self)"
      and n: "next_source_id self' = next_source_id self + 1"
      by simp_all
    from inv have "changes self ?cid \<noteq> None \<longleftrightarrow>
        Some ?cid \<in> set (map (\<lambda>t. data_change_id (snd t)) (timeouts self))"
      unfolding timers_inv_def by blast
    with True have fresh: "Some ?cid \<notin> set (map (\<lambda>t. data_change_id (snd t)) (timeouts self))"
      by simp
    have src: "next_source_id self \<notin> set (map fst (timeouts self))"
      using inv by (auto simp: timers_inv_def)
    show ?thesis
      unfolding timers_inv_def
      using inv fresh src
      by (auto simp: t ch n timers_inv_def snap_refresh_data_new_def less_Suc_eq)
  qed
qed

lemma distinct_map_remove1:
  "distinct (map f xs) \<Longrightarrow> distinct (map f (remove1 x xs))"
proof (induction xs)
  case Nil
  then show ?case by simp
next
  case (Cons a xs)
  have "f ` set (remove1 x xs) \<subseteq> f ` set xs"
    using set_remove1_subset[of x xs] by blast
  with Cons show ?case by auto
qed

lemma image_remove1_fresh:
  assumes "distinct (map f xs)" "x \<in> set xs"
  shows "f x \<notin> f ` set (remove1 x xs)"
proof -
  from assms(1) have d: "distinct xs" and i: "inj_on f (set xs)"
    by (simp_all add: distinct_map)
  from d have "set (remove1 x xs) = set xs - {x}" by simp
  with i assms(2) show ?thesis by (auto simp: inj_on_def)
qed

lemma image_remove1_other:
  assumes "distinct xs" "y \<noteq> f x"
  shows "y \<in> f ` set (remove1 x xs) \<longleftrightarrow> y \<in> f ` set xs"
proof -
  from assms(1) have "set (remove1 x xs) = set xs - {x}" by simp
  with assms(2) show ?thesis by auto
qed

lemma timers_inv_timeout_fired:
  assumes inv: "timers_inv self"
    and r: "dispatch self (Timeout_fired source) = Inr (self', effs)"
  shows "timers_inv self'"
proof -
  from r obtain data where d: "map_of (timeouts self) source = Some data"
    by (auto simp: dispatch_def split: option.splits)
  then have mem: "(source, data) \<in> set (timeouts self)" by (rule map_of_SomeD)
  from inv mem have "data_change_id (snd (source, data)) \<noteq> None"
    unfolding timers_inv_def by blast
  then obtain cid where cid: "data_change_id data = Some cid" by auto
  from r d cid have s': "self' = self\<lparr>timeouts := remove1 (source, data) (timeouts self),
       changes := (changes self)(cid := None)\<rparr>"
    by (simp add: dispatch_def refresh_change_def)
  let ?f = "\<lambda>t. data_change_id (snd t)"
  let ?ts = "timeouts self"
  let ?ts' = "remove1 (source, data) ?ts"
  from inv have df: "distinct (map fst ?ts)" and dc: "distinct (map ?f ?ts)"
    and bound: "\<forall>t \<in> set ?ts. fst t < next_source_id self \<and> ?f t \<noteq> None"
    and ch: "\<forall>c. changes self c \<noteq> None \<longleftrightarrow> Some c \<in> set (map ?f ?ts)"
    unfolding timers_inv_def by blast+
  from dc have dts: "distinct ?ts" by (simp add: distinct_map)
  have sub: "set ?ts' \<subseteq> set ?ts" by (rule set_remove1_subset)
  have d1: "distinct (map fst ?ts')" using df by (rule distinct_map_remove1)
  have d2: "distinct (map ?f ?ts')" using dc by (rule distinct_map_remove1)
  have gone: "Some cid \<notin> ?f ` set ?ts'"
    using image_remove1_fresh[OF dc mem] cid by simp
  have others: "\<And>c. c \<noteq> cid \<Longrightarrow> Some c \<in> ?f ` set ?ts' \<longleftrightarrow> Some c \<in> ?f ` set ?ts"
    using image_remove1_other[OF dts, of _ ?f "(source, data)"] cid by simp
  have b': "\<forall>t \<in> set ?ts'. fst t < next_source_id self \<and> ?f t \<noteq> None"
    using bound sub by blast
  have c': "\<forall>c. ((changes self)(cid := None)) c \<noteq> None \<longleftrightarrow> Some c \<in> set (map ?f ?ts')"
  proof
    fix c
    show "((changes self)(cid := None)) c \<noteq> None \<longleftrightarrow> Some c \<in> set (map ?f ?ts')"
    proof (cases "c = cid")
      case True
      with gone show ?thesis by simp
    next
      case False
      from ch have "changes self c \<noteq> None \<longleftrightarrow> Some c \<in> ?f ` set ?ts" by simp
      with others[OF False] False show ?thesis by simp
    qed
  qed
  show ?thesis
    unfolding timers_inv_def s'
    using d1 d2 b' c' by simp
qed

lemma timers_inv_dispatch:
  assumes inv: "timers_inv self"
    and r: "dispatch self ev = Inr (self', effs)"
  shows "timers_inv self'"
proof (cases ev)
  case (Notice_event n fr)
  with r inv show ?thesis by (auto simp: dispatch_def dest: notice_cb_state)
next
  case (Change_finished e res)
  with r inv show ?thesis by (auto simp: dispatch_def intro: timers_inv_manage_change_update)
next
  case (Timeout_fired source)
  with r inv show ?thesis by (auto intro: timers_inv_timeout_fired)
next
  case (Snap_finished_begin data res)
  with r have "begin_application_refresh self data res = Inr (self', effs)"
    by (simp add: dispatch_def)
  from begin_application_refresh_frame[OF this] inv show ?thesis
    by (auto intro: timers_inv_frame)
next
  case (Snap_finished_completed data res)
  with r inv show ?thesis by (auto simp: dispatch_def dest: show_snap_completed_state)
next
  case (Snaps_finished e res)
  with r have "manage_refresh_inhibit e self res = Inr (self', effs)"
    by (simp add: dispatch_def)
  from manage_refresh_inhibit_frame[OF this] inv show ?thesis
    by (auto intro: timers_inv_frame)
next
  case (Dialog_hidden d)
  with r have "self' = close_dialog_cb self d"
    by (simp add: dispatch_def split: if_splits)
  with inv show ?thesis by (auto intro: timers_inv_frame simp: close_dialog_cb_frame)
next
  case (Ignore_snap n)
  with r have "self' = sdi_refresh_monitor_ignore_snap_cb self n" by (simp add: dispatch_def)
  with inv show ?thesis by (auto intro: timers_inv_frame simp: ignore_snap_cb_frame)
qed

lemma timers_inv_run:
  "timers_inv self \<Longrightarrow> run self evs = Inr (self', effs) \<Longrightarrow> timers_inv self'"
proof (induction evs arbitrary: self effs)
  case Nil
  then show ?case by simp
next
  case (Cons ev evs)
  from Cons.prems(2) obtain s1 e1 e2 where
    d: "dispatch self ev = Inr (s1, e1)" and r: "run s1 evs = Inr (self', e2)"
    by (auto split: sum.splits prod.splits)
  from timers_inv_dispatch[OF Cons.prems(1) d] have "timers_inv s1" .
  from Cons.IH[OF this r] show ?case .
qed

lemma timers_inv_init: "timers_inv sdi_refresh_monitor_init"
  by (simp add: timers_inv_def sdi_refresh_monitor_init_def)


lemma distinct_map_filter_le1:
  "distinct (map f xs) \<Longrightarrow> length (filter (\<lambda>t. f t = y) xs) \<le> 1"
proof (induction xs)
  case Nil
  then show ?case by simp
next
  case (Cons a xs)
  show ?case
  proof (cases "f a = y")
    case True
    with Cons.prems have "y \<notin> f ` set xs" by simp
    then have "\<forall>t \<in> set xs. f t \<noteq> y" by blast
    then have "filter (\<lambda>t. f t = y) xs = []" by (simp add: filter_empty_conv)
    with True show ?thesis by simp
  next
    case False
    with Cons show ?thesis by simp
  qed
qed

text \<open>
  C1. In every state that the monitor reaches from its initial state, and for
  every change id: at most one poll timeout is pending for it; the id is a
  key of \<open>changes\<close> exactly when such a timeout is pending; a change update
  for an id that has a pending timeout adds no timeout; and when the timeout
  fires it is taken off the main loop, the id is removed from \<open>changes\<close>,
  and the request for the change is what the handler leaves behind, so every
  later handler sees the id removed.
\<close>

theorem one_poll_timer_per_change:
  assumes "run sdi_refresh_monitor_init evs = Inr (self, effs)"
  shows "length (filter (\<lambda>t. data_change_id (snd t) = Some cid) (timeouts self)) \<le> 1
    \<and> (changes self cid \<noteq> None \<longleftrightarrow>
         (\<exists>t \<in> set (timeouts self). data_change_id (snd t) = Some cid))
    \<and> (\<forall>e change self' effs'.
          change_id change = cid \<and> changes self cid \<noteq> None \<and>
          manage_change_update e self (AsyncValue (Some change)) = Inr (self', effs')
          \<longrightarrow> timeouts self' = timeouts self \<and> changes self' = changes self)
    \<and> (\<forall>source data.
          (source, data) \<in> set (timeouts self) \<and> data_change_id data = Some cid
          \<longrightarrow> dispatch self (Timeout_fired source) =
                Inr (self\<lparr>timeouts := remove1 (source, data) (timeouts self),
                          changes := (changes self)(cid := None)\<rparr>,
                     [Snapd_client_get_change_async cid]))"
proof -
  have inv: "timers_inv self"
    using timers_inv_run[OF timers_inv_init assms] .
  let ?f = "\<lambda>t. data_change_id (snd t)"
  from inv have df: "distinct (map fst (timeouts self))"
    and dc: "distinct (map ?f (timeouts self))"
    and ch: "\<forall>c. changes self c \<noteq> None \<longleftrightarrow> Some c \<in> set (map ?f (timeouts self))"
    unfolding timers_inv_def by blast+
  have p1: "length (filter (\<lambda>t. ?f t = Some cid) (timeouts self)) \<le> 1"
    using dc by (rule distinct_map_filter_le1)
  have p2: "changes self cid \<noteq> None \<longleftrightarrow>
         (\<exists>t \<in> set (timeouts self). data_change_id (snd t) = Some cid)"
  proof -
    from ch have "changes self cid \<noteq> None \<longleftrightarrow> Some cid \<in> ?f ` set (timeouts self)"
      by simp
    also have "\<dots> \<longleftrightarrow> (\<exists>t \<in> set (timeouts self). data_change_id (snd t) = Some cid)"
      by (rule iffI; force)
    finally show ?thesis .
  qed
  have p3: "timeouts self' = timeouts self \<and> changes self' = changes self"
    if "change_id change = cid" "changes self cid \<noteq> None"
       "manage_change_update e self (AsyncValue (Some change)) = Inr (self', effs')"
    for e change self' effs'
  proof (cases "valid_working_change_status (change_status change) \<or>
                cancelled_change_status (change_status change)")
    case False
    with that(3) show ?thesis by (simp add: manage_change_update_def Let_def)
  next
    case True
    with that(3) have "manage_classified_change e self change (change_status change = ''Done'')
        (cancelled_change_status (change_status change)) = Inr (self', effs')"
      by (auto simp: manage_change_update_def Let_def split: if_splits)
    from manage_classified_change_timeouts[OF this] that(1,2) show ?thesis by auto
  qed
  have p4: "dispatch self (Timeout_fired source) =
                Inr (self\<lparr>timeouts := remove1 (source, data) (timeouts self),
                          changes := (changes self)(cid := None)\<rparr>,
                     [Snapd_client_get_change_async cid])"
    if "(source, data) \<in> set (timeouts self)" "data_change_id data = Some cid"
    for source data
  proof -
    from df that(1) have "map_of (timeouts self) source = Some data"
      by (rule map_of_is_SomeI)
    with that(2) show ?thesis by (simp add: dispatch_def refresh_change_def)
  qed
  from p1 p2 p3 p4 show ?thesis by blast
qed


theorem one_poll_timer_per_change_witness:
  "\<exists>self effs self' effs'.
     run sdi_refresh_monitor_init two_updates = Inr (self, effs) \<and>
     timeouts self = [(1, \<lparr>data_change_id = Some ''7'', data_snap_name = None\<rparr>)] \<and>
     length (filter (\<lambda>t. data_change_id (snd t) = Some ''7'') (timeouts self)) \<le> 1 \<and>
     changes self ''7'' \<noteq> None \<and>
     manage_change_update env0 self (AsyncValue (Some (change7 ''refresh-snap'' ''Doing''))) =
       Inr (self', effs') \<and>
     timeouts self' = timeouts self \<and>
     dispatch self (Timeout_fired 1) =
       Inr (self\<lparr>timeouts := [], changes := (changes self)(''7'' := None)\<rparr>,
            [Snapd_client_get_change_async ''7''])"
proof -
  let ?c = "change7 ''refresh-snap'' ''Doing''"
  let ?d = "\<lparr>data_change_id = Some ''7'', data_snap_name = None\<rparr>"
  have "case run sdi_refresh_monitor_init two_updates of
          Inl f \<Rightarrow> False
        | Inr (self, effs) \<Rightarrow>
            timeouts self = [(1, ?d)] \<and>
            (case manage_change_update env0 self (AsyncValue (Some ?c)) of
               Inl f \<Rightarrow> False
             | Inr (self', effs') \<Rightarrow> True)"
    by code_simp
  then obtain self effs self' effs' where
    r: "run sdi_refresh_monitor_init two_updates = Inr (self, effs)"
    and t: "timeouts self = [(1, ?d)]"
    and m: "manage_change_update env0 self (AsyncValue (Some ?c)) = Inr (self', effs')"
    by (auto split: sum.splits)
  note th = one_poll_timer_per_change[OF r, of "''7''"]
  have cid: "change_id ?c = ''7''" by (simp add: change7_def)
  from th have le: "length (filter (\<lambda>t. data_change_id (snd t) = Some ''7'') (timeouts self)) \<le> 1"
    by blast
  from th t have pending: "changes self ''7'' \<noteq> None" by simp
  from th have "change_id ?c = ''7'' \<and> changes self ''7'' \<noteq> None \<and>
       manage_change_update env0 self (AsyncValue (Some ?c)) = Inr (self', effs')
       \<longrightarrow> timeouts self' = timeouts self \<and> changes self' = changes self"
    by blast
  with cid pending m have same: "timeouts self' = timeouts self" by blast
  from th have "(1, ?d) \<in> set (timeouts self) \<and> data_change_id ?d = Some ''7''
       \<longrightarrow> dispatch self (Timeout_fired 1) =
             Inr (self\<lparr>timeouts := remove1 (1, ?d) (timeouts self),
                       changes := (changes self)(''7'' := None)\<rparr>,
                  [Snapd_client_get_change_async ''7''])"
    by blast
  with t have fire: "dispatch self (Timeout_fired 1) =
       Inr (self\<lparr>timeouts := [], changes := (changes self)(''7'' := None)\<rparr>,
            [Snapd_client_get_change_async ''7''])"
    by simp
  from r t le pending m same fire show ?thesis by blast
qed

section \<open>Classification of the change status\<close>

text \<open>
  C5. For every fetched change the handler goes on exactly when the status is
  one of Do, Doing, Done (valid) or one of Undoing, Undone, Undo, Error
  (cancelled); it then works with \<open>done\<close> true exactly for the status Done and
  \<open>cancelled\<close> true exactly for the four cancelled statuses. With any other
  status the update is dropped: the monitor is unchanged, nothing is
  requested and no poll is scheduled.
\<close>

theorem manage_change_update_classifies:
  "manage_change_update e self (AsyncValue (Some change)) =
     (if change_status change \<in> {''Do'', ''Doing'', ''Done''} \<or>
         change_status change \<in> {''Undoing'', ''Undone'', ''Undo'', ''Error''}
      then manage_classified_change e self change
             (change_status change = ''Done'')
             (change_status change \<in> {''Undoing'', ''Undone'', ''Undo'', ''Error''})
      else Inr (self, []))"
  by (simp add: manage_change_update_def cancelled_change_status_def
        valid_working_change_status_def Let_def)

theorem manage_change_update_classifies_witness:
  "manage_change_update env0 sdi_refresh_monitor_init
     (AsyncValue (Some (change7 ''auto-refresh'' ''Hold''))) =
   Inr (sdi_refresh_monitor_init, [])"
  using manage_change_update_classifies
          [of env0 sdi_refresh_monitor_init "change7 ''auto-refresh'' ''Hold''"]
  by (simp add: change7_def)

section \<open>Terminal changes\<close>

text \<open>
  C2, as stated, fails: the update with the status Done that arrives while the
  poll timeout of change 7 is pending leaves the entry of change 7 in
  \<open>changes\<close>.
\<close>

theorem terminal_change_counterexample:
  "\<not> isl (run sdi_refresh_monitor_init running_then_done) \<and>
   changes (fst (projr (run sdi_refresh_monitor_init running_then_done))) ''7'' = Some 1"
  by code_simp

text \<open>
  C2, amended. When the status of a fetched change is done or cancelled,
  handling that update schedules no poll timeout and leaves \<open>changes\<close> as it
  is; an entry of that change id which is still there is removed when its
  pending timeout fires.
\<close>

theorem terminal_change_schedules_no_poll:
  assumes "change_status change = ''Done'' \<or> cancelled_change_status (change_status change)"
    and "manage_change_update e self (AsyncValue (Some change)) = Inr (self', effs)"
  shows "timeouts self' = timeouts self \<and> changes self' = changes self \<and>
    (\<forall>source data.
       map_of (timeouts self') source = Some data \<and>
       data_change_id data = Some (change_id change)
       \<longrightarrow> dispatch self' (Timeout_fired source) =
             Inr (self'\<lparr>timeouts := remove1 (source, data) (timeouts self'),
                        changes := (changes self')(change_id change := None)\<rparr>,
                  [Snapd_client_get_change_async (change_id change)]))"
proof -
  let ?st = "change_status change"
  from assms(1) have v: "valid_working_change_status ?st \<or> cancelled_change_status ?st"
    by (auto simp: valid_working_change_status_def)
  with assms(2) have m: "manage_classified_change e self change (?st = ''Done'')
        (cancelled_change_status ?st) = Inr (self', effs)"
    by (auto simp: manage_change_update_def Let_def split: if_splits)
  from manage_classified_change_timeouts[OF m] assms(1)
  have "timeouts self' = timeouts self \<and> changes self' = changes self"
    by (auto split: if_splits)
  then show ?thesis
    by (simp add: dispatch_def refresh_change_def)
qed

theorem terminal_change_schedules_no_poll_witness:
  "\<exists>self self' effs0 effs.
     run sdi_refresh_monitor_init
       [Change_finished env0 (AsyncValue (Some (change7 ''refresh-snap'' ''Doing'')))] =
       Inr (self, effs0) \<and>
     manage_change_update env0 self (AsyncValue (Some finished7)) = Inr (self', effs) \<and>
     timeouts self' = timeouts self \<and> changes self' = changes self \<and>
     timeouts self' = [(1, \<lparr>data_change_id = Some ''7'', data_snap_name = None\<rparr>)] \<and>
     dispatch self' (Timeout_fired 1) =
       Inr (self'\<lparr>timeouts := [], changes := (changes self')(''7'' := None)\<rparr>,
            [Snapd_client_get_change_async ''7''])"
proof -
  let ?c = "finished7"
  have "case run sdi_refresh_monitor_init
          [Change_finished env0 (AsyncValue (Some (change7 ''refresh-snap'' ''Doing'')))] of
          Inl f \<Rightarrow> False
        | Inr (self, effs0) \<Rightarrow>
            (case manage_change_update env0 self (AsyncValue (Some ?c)) of
               Inl f \<Rightarrow> False
             | Inr (self', effs) \<Rightarrow>
                 timeouts self' = [(1, \<lparr>data_change_id = Some ''7'', data_snap_name = None\<rparr>)])"
    by code_simp
  then obtain self effs0 self' effs where
    r: "run sdi_refresh_monitor_init
          [Change_finished env0 (AsyncValue (Some (change7 ''refresh-snap'' ''Doing'')))] =
        Inr (self, effs0)"
    and m: "manage_change_update env0 self (AsyncValue (Some ?c)) = Inr (self', effs)"
    and t: "timeouts self' = [(1, \<lparr>data_change_id = Some ''7'', data_snap_name = None\<rparr>)]"
    by (auto split: sum.splits)
  have st: "change_status ?c = ''Done'' \<or> cancelled_change_status (change_status ?c)"
    by (simp add: finished7_def)
  have cid: "change_id ?c = ''7''" by (simp add: finished7_def)
  let ?d = "\<lparr>data_change_id = Some ''7'', data_snap_name = None\<rparr>"
  note th = terminal_change_schedules_no_poll[OF st m]
  from th have a: "timeouts self' = timeouts self" "changes self' = changes self"
    by simp_all
  from th have "map_of (timeouts self') 1 = Some ?d \<and>
       data_change_id ?d = Some (change_id ?c)
       \<longrightarrow> dispatch self' (Timeout_fired 1) =
             Inr (self'\<lparr>timeouts := remove1 (1, ?d) (timeouts self'),
                        changes := (changes self')(change_id ?c := None)\<rparr>,
                  [Snapd_client_get_change_async (change_id ?c)])"
    by blast
  with t cid have fire: "dispatch self' (Timeout_fired 1) =
       Inr (self'\<lparr>timeouts := [], changes := (changes self')(''7'' := None)\<rparr>,
            [Snapd_client_get_change_async ''7''])"
    by simp
  from r m a t fire show ?thesis by blast
qed

section \<open>The notice dispatcher\<close>

text \<open>
  C6. A notice of type change-update delivered on the first run does nothing,
  whatever its kind (also a missing one) and key: the monitor is unchanged and
  no request is issued.
\<close>

theorem first_run_change_update_ignored:
  "notice_type notice = SNAPD_NOTICE_TYPE_CHANGE_UPDATE \<Longrightarrow>
   notice_cb self notice True = Inr (self, [])"
  by (simp add: notice_cb_def)

theorem first_run_change_update_ignored_witness:
  "notice_type (notice7 SNAPD_NOTICE_TYPE_CHANGE_UPDATE) = SNAPD_NOTICE_TYPE_CHANGE_UPDATE \<and>
   notice_cb sdi_refresh_monitor_init (notice7 SNAPD_NOTICE_TYPE_CHANGE_UPDATE) True =
     Inr (sdi_refresh_monitor_init, []) \<and>
   notice_cb sdi_refresh_monitor_init (notice7 SNAPD_NOTICE_TYPE_CHANGE_UPDATE) False =
     Inr (sdi_refresh_monitor_init, [Snapd_client_get_change_async ''7''])"
proof -
  have h: "notice_type (notice7 SNAPD_NOTICE_TYPE_CHANGE_UPDATE) = SNAPD_NOTICE_TYPE_CHANGE_UPDATE"
    by (simp add: notice7_def)
  from first_run_change_update_ignored[OF h, of sdi_refresh_monitor_init] h show ?thesis
    by (simp add: notice_cb_def notice7_def)
qed

text \<open>
  C10. A notice of type refresh-inhibit is handled the same way on the first
  run and later: it always issues the query for the refresh-inhibited snaps,
  whose completion is handled by \<open>manage_refresh_inhibit\<close>, a handler that
  does not receive the first-run flag.
\<close>

theorem refresh_inhibit_notice_ignores_first_run:
  "notice_type notice = SNAPD_NOTICE_TYPE_REFRESH_INHIBIT \<Longrightarrow>
   notice_cb self notice first_run = Inr (self, [Snapd_client_get_snaps_async]) \<and>
   notice_cb self notice True = notice_cb self notice False"
  by (simp add: notice_cb_def)

theorem refresh_inhibit_notice_ignores_first_run_witness:
  "notice_type (notice7 SNAPD_NOTICE_TYPE_REFRESH_INHIBIT) = SNAPD_NOTICE_TYPE_REFRESH_INHIBIT \<and>
   notice_cb sdi_refresh_monitor_init (notice7 SNAPD_NOTICE_TYPE_REFRESH_INHIBIT) True =
     Inr (sdi_refresh_monitor_init, [Snapd_client_get_snaps_async])"
proof -
  have h: "notice_type (notice7 SNAPD_NOTICE_TYPE_REFRESH_INHIBIT) = SNAPD_NOTICE_TYPE_REFRESH_INHIBIT"
    by (simp add: notice7_def)
  from refresh_inhibit_notice_ignores_first_run[OF h, of sdi_refresh_monitor_init True] h
  show ?thesis by simp
qed



section \<open>The dialogs\<close>

lemma contains_child_iff:
  "contains_child box d \<longleftrightarrow> dialog_ptr d \<in> dialog_ptr ` set box"
  by (induction box) auto

lemma dialogs_invD:
  assumes "dialogs_inv self"
  shows "distinct (map dialog_ptr (refresh_bar_container self))"
    and "d \<in> set (refresh_bar_container self) \<Longrightarrow> dialog_ptr d < next_dialog_ptr self"
    and "d \<in> set (refresh_bar_container self) \<Longrightarrow>
           \<exists>s. snaps self (app_name d) = Some s \<and> dialog s = Some d"
    and "snaps self n = Some s \<Longrightarrow> sdi_name s = n"
  using assms unfolding dialogs_inv_def by blast+

lemma dialogs_invI:
  assumes "distinct (map dialog_ptr (refresh_bar_container self))"
    and "\<And>d. d \<in> set (refresh_bar_container self) \<Longrightarrow> dialog_ptr d < next_dialog_ptr self"
    and "\<And>d. d \<in> set (refresh_bar_container self) \<Longrightarrow>
           \<exists>s. snaps self (app_name d) = Some s \<and> dialog s = Some d"
    and "\<And>n s. snaps self n = Some s \<Longrightarrow> sdi_name s = n"
  shows "dialogs_inv self"
  using assms unfolding dialogs_inv_def by blast

lemma dialogs_inv_add_snap:
  assumes "dialogs_inv self"
  shows "dialogs_inv (fst (add_snap self n))"
proof (cases "snaps self n")
  case (Some s)
  with assms show ?thesis by (simp add: add_snap_def find_snap_def)
next
  case None
  then have eq: "fst (add_snap self n) = self\<lparr>snaps := (snaps self)(n \<mapsto> sdi_snap_new n)\<rparr>"
    by (simp add: add_snap_def find_snap_def Let_def)
  have "app_name d \<noteq> n" if "d \<in> set (refresh_bar_container self)" for d
    using assms that None unfolding dialogs_inv_def by force
  with assms show ?thesis
    unfolding eq dialogs_inv_def by (auto simp: sdi_snap_new_def)
qed

lemma add_snap_result:
  "snaps (fst (add_snap self n)) n = Some (snd (add_snap self n))"
  "snaps self n = Some s \<Longrightarrow> add_snap self n = (self, s)"
  "snaps self n = None \<Longrightarrow> dialog (snd (add_snap self n)) = None"
  by (auto simp: add_snap_def find_snap_def Let_def sdi_snap_new_def split: option.splits)

lemma dialogs_inv_modify:
  assumes "dialogs_inv self" "\<And>s. dialog (f s) = dialog s" "\<And>s. sdi_name (f s) = sdi_name s"
  shows "dialogs_inv (sdi_snap_modify self n f)"
proof (cases "snaps self n")
  case None
  with assms(1) show ?thesis by (simp add: sdi_snap_modify_def)
next
  case (Some s)
  then have eq: "sdi_snap_modify self n f = self\<lparr>snaps := (snaps self)(n \<mapsto> f s)\<rparr>"
    by (simp add: sdi_snap_modify_def)
  show ?thesis
    unfolding eq dialogs_inv_def
    using assms Some unfolding dialogs_inv_def by auto
qed

lemma dialogs_inv_remove_snap:
  assumes inv: "dialogs_inv self" and s: "snaps self n = Some snap"
  shows "dialogs_inv (remove_snap self snap)"
proof -
  from inv s have nm: "sdi_name snap = n" unfolding dialogs_inv_def by blast
  let ?box = "refresh_bar_container self"
  let ?self1 = "remove_dialog self (dialog snap)"
  let ?box1 = "refresh_bar_container ?self1"
  have sn: "snaps ?self1 = snaps self" and np: "next_dialog_ptr ?self1 = next_dialog_ptr self"
    by (simp_all add: remove_dialog_def Let_def split: option.splits)
  have sub: "set ?box1 \<subseteq> set ?box"
    by (auto simp: remove_dialog_def Let_def gtk_box_remove_def split: option.splits if_splits)
  have dist: "distinct (map dialog_ptr ?box1)"
    using inv unfolding dialogs_inv_def
    by (auto simp: remove_dialog_def Let_def gtk_box_remove_def distinct_map_filter
          split: option.splits)
  have other: "app_name d \<noteq> n" if d: "d \<in> set ?box1" for d
  proof
    assume a: "app_name d = n"
    from d sub have din: "d \<in> set ?box" by blast
    with inv a s have ds: "dialog snap = Some d" unfolding dialogs_inv_def by force
    from din have cc: "contains_child ?box d" by (auto simp: contains_child_iff)
    from ds cc have "?box1 = gtk_box_remove ?box d"
      by (simp add: remove_dialog_def Let_def)
    with d show False by (simp add: gtk_box_remove_def)
  qed
  have eq: "remove_snap self snap = ?self1\<lparr>snaps := (snaps ?self1)(n := None)\<rparr>"
    by (simp add: remove_snap_def Let_def nm)
  show ?thesis
    unfolding eq dialogs_inv_def
    using inv dist sub other unfolding dialogs_inv_def
    by (auto simp: sn np)
qed

lemma dialogs_inv_bind_new_dialog:
  assumes inv: "dialogs_inv self" and s: "snaps self n = Some snap" and nd: "dialog snap = None"
  shows "dialogs_inv (bind_new_dialog self n v i)"
proof -
  let ?dlg = "\<lparr>dialog_ptr = next_dialog_ptr self, app_name = n, visible_name = v, icon_image = i\<rparr>"
  let ?box = "refresh_bar_container self"
  let ?box' = "(if main_window self then ?box else []) @ [?dlg]"
  have eq: "bind_new_dialog self n v i =
      self\<lparr>next_dialog_ptr := next_dialog_ptr self + 1, main_window := True,
           refresh_bar_container := ?box', snaps := (snaps self)(n \<mapsto> snap\<lparr>dialog := Some ?dlg\<rparr>)\<rparr>"
    using s
    by (simp add: bind_new_dialog_def Let_def add_dialog_to_main_window_def
          sdi_snap_modify_def sdi_refresh_dialog_new_def)
  have other: "app_name d \<noteq> n" if "d \<in> set ?box" for d
    using inv that s nd unfolding dialogs_inv_def by force
  have fresh: "next_dialog_ptr self \<notin> dialog_ptr ` set ?box"
    using inv unfolding dialogs_inv_def by force
  show ?thesis
    unfolding eq dialogs_inv_def
    using inv other fresh s unfolding dialogs_inv_def
    by (auto simp: less_Suc_eq)
qed

lemma dialogs_inv_close_dialog_cb:
  assumes inv: "dialogs_inv self" and mem: "dlg \<in> set (refresh_bar_container self)"
  shows "dialogs_inv (close_dialog_cb self dlg)"
proof -
  let ?n = "app_name dlg"
  let ?self1 = "sdi_snap_modify self ?n (\<lambda>s. s\<lparr>manually_hidden := True\<rparr>)"
  let ?self2 = "remove_dialog ?self1 (Some dlg)"
  let ?box = "refresh_bar_container self"
  let ?box2 = "gtk_box_remove ?box dlg"
  have i1: "dialogs_inv ?self1" using inv by (rule dialogs_inv_modify) simp_all
  have box1: "refresh_bar_container ?self1 = ?box"
    by (simp add: sdi_snap_modify_frame)
  have cc: "contains_child ?box dlg" using mem by (auto simp: contains_child_iff)
  have box2: "refresh_bar_container ?self2 = ?box2"
    using cc by (simp add: remove_dialog_def Let_def box1)
  have sn2: "snaps ?self2 = snaps ?self1"
    and np2: "next_dialog_ptr ?self2 = next_dialog_ptr ?self1"
    by (simp_all add: remove_dialog_def Let_def)
  have sub: "set ?box2 \<subseteq> set ?box" by (auto simp: gtk_box_remove_def)
  have other: "app_name d \<noteq> ?n" if d: "d \<in> set ?box2" for d
  proof
    assume a: "app_name d = ?n"
    from d have din: "d \<in> set ?box" and pd: "dialog_ptr d \<noteq> dialog_ptr dlg"
      by (simp_all add: gtk_box_remove_def)
    from dialogs_invD(3)[OF inv din] obtain s1 where
      s1: "snaps self (app_name d) = Some s1" "dialog s1 = Some d" by blast
    from dialogs_invD(3)[OF inv mem] obtain s2 where
      s2: "snaps self ?n = Some s2" "dialog s2 = Some dlg" by blast
    from s1 s2 a have "d = dlg" by simp
    with pd show False by simp
  qed
  have i2: "dialogs_inv ?self2"
  proof (rule dialogs_invI)
    show "distinct (map dialog_ptr (refresh_bar_container ?self2))"
      using dialogs_invD(1)[OF inv] by (simp add: box2 gtk_box_remove_def distinct_map_filter)
    show "dialog_ptr d < next_dialog_ptr ?self2" if "d \<in> set (refresh_bar_container ?self2)" for d
      using dialogs_invD(2)[OF i1, of d] that sub by (auto simp: box2 box1 np2)
    show "\<exists>s. snaps ?self2 (app_name d) = Some s \<and> dialog s = Some d"
      if "d \<in> set (refresh_bar_container ?self2)" for d
      using dialogs_invD(3)[OF i1, of d] that sub by (auto simp: box2 box1 sn2)
    show "sdi_name s = n" if "snaps ?self2 n = Some s" for n s
      using dialogs_invD(4)[OF i1, of n s] that by (simp add: sn2)
  qed
  have eq: "close_dialog_cb self dlg = sdi_snap_modify ?self2 ?n (\<lambda>s. s\<lparr>dialog := None\<rparr>)"
    by (simp add: close_dialog_cb_def Let_def)
  show ?thesis
  proof (cases "snaps ?self2 ?n")
    case None
    with i2 show ?thesis by (simp add: eq sdi_snap_modify_def)
  next
    case (Some s)
    then have eq2: "close_dialog_cb self dlg =
        ?self2\<lparr>snaps := (snaps ?self2)(?n \<mapsto> s\<lparr>dialog := None\<rparr>)\<rparr>"
      by (simp add: eq sdi_snap_modify_def)
    show ?thesis
      unfolding eq2
    proof (rule dialogs_invI)
      show "distinct (map dialog_ptr (refresh_bar_container
              (?self2\<lparr>snaps := (snaps ?self2)(?n \<mapsto> s\<lparr>dialog := None\<rparr>)\<rparr>)))"
        using dialogs_invD(1)[OF i2] by simp
      show "dialog_ptr d < next_dialog_ptr (?self2\<lparr>snaps := (snaps ?self2)(?n \<mapsto> s\<lparr>dialog := None\<rparr>)\<rparr>)"
        if "d \<in> set (refresh_bar_container (?self2\<lparr>snaps := (snaps ?self2)(?n \<mapsto> s\<lparr>dialog := None\<rparr>)\<rparr>))" for d
        using dialogs_invD(2)[OF i2, of d] that by simp
      show "\<exists>s'. snaps (?self2\<lparr>snaps := (snaps ?self2)(?n \<mapsto> s\<lparr>dialog := None\<rparr>)\<rparr>) (app_name d) = Some s' \<and> dialog s' = Some d"
        if "d \<in> set (refresh_bar_container (?self2\<lparr>snaps := (snaps ?self2)(?n \<mapsto> s\<lparr>dialog := None\<rparr>)\<rparr>))" for d
      proof -
        from that have d2: "d \<in> set (refresh_bar_container ?self2)" by simp
        then have "app_name d \<noteq> ?n" using other by (simp add: box2)
        with dialogs_invD(3)[OF i2 d2] show ?thesis by simp
      qed
      show "sdi_name s' = n"
        if "snaps (?self2\<lparr>snaps := (snaps ?self2)(?n \<mapsto> s\<lparr>dialog := None\<rparr>)\<rparr>) n = Some s'" for n s'
        using dialogs_invD(4)[OF i2, of n] dialogs_invD(4)[OF i2 Some] that
        by (auto split: if_splits)
    qed
  qed
qed


lemma dialogs_inv_frame:
  assumes "dialogs_inv self" "snaps self' = snaps self"
    "refresh_bar_container self' = refresh_bar_container self"
    "next_dialog_ptr self' = next_dialog_ptr self"
  shows "dialogs_inv self'"
  using assms by (simp add: dialogs_inv_def)

lemma dialogs_inv_begin_application_refresh:
  assumes inv: "dialogs_inv self"
    and r: "begin_application_refresh self data res = Inr (self', effs)"
  shows "dialogs_inv self'"
proof -
  have step: "dialogs_inv (case dialog (snd (add_snap self n)) of
                  Some d \<Rightarrow> fst (add_snap self n)
                | None \<Rightarrow> bind_new_dialog (fst (add_snap self n)) n v i)" for n v i
  proof (cases "dialog (snd (add_snap self n))")
    case (Some d)
    with dialogs_inv_add_snap[OF inv, of n] show ?thesis by simp
  next
    case None
    with dialogs_inv_bind_new_dialog[OF dialogs_inv_add_snap[OF inv, of n] add_snap_result(1) None]
    show ?thesis by simp
  qed
  from begin_application_refresh_result[OF r]
  have "self' = self \<or> (\<exists>n v i. self' = (case dialog (snd (add_snap self n)) of
                  Some d \<Rightarrow> fst (add_snap self n)
                | None \<Rightarrow> bind_new_dialog (fst (add_snap self n)) n v i))" .
  with inv step show ?thesis by auto
qed


lemma dialogs_inv_update_inhibited_snap:
  assumes "dialogs_inv (fst acc)"
  shows "dialogs_inv (fst (update_inhibited_snap change dn c acc n))"
proof -
  obtain self effs where acc: "acc = (self, effs)" by (cases acc)
  with assms have inv: "dialogs_inv self" by simp
  show ?thesis
  proof (cases "snaps self n")
    case None
    with inv show ?thesis by (simp add: acc update_inhibited_snap_def find_snap_def)
  next
    case (Some snap)
    have m: "dialogs_inv (sdi_snap_modify self n (\<lambda>s. s\<lparr>ignored := True\<rparr>))"
      using inv by (rule dialogs_inv_modify) simp_all
    from dialogs_inv_remove_snap[OF inv Some] m inv Some show ?thesis
      by (simp add: acc update_inhibited_snap_def find_snap_def Let_def
            split: option.splits prod.splits)
  qed
qed

lemma dialogs_inv_update_inhibited_snaps:
  assumes "dialogs_inv self"
  shows "dialogs_inv (fst (update_inhibited_snaps self change dn c))"
proof -
  have "dialogs_inv (fst acc) \<Longrightarrow>
        dialogs_inv (fst (foldl (update_inhibited_snap change dn c) acc ns))" for acc ns
    by (induction ns arbitrary: acc) (simp_all add: dialogs_inv_update_inhibited_snap)
  from this[of "(self, [])"] assms show ?thesis
    by (simp add: update_inhibited_snaps_def split: option.splits)
qed

lemma dialogs_inv_manage_change_update:
  assumes inv: "dialogs_inv self"
    and r: "manage_change_update e self res = Inr (self', effs)"
  shows "dialogs_inv self'"
proof (cases "\<exists>change dn c. manage_classified_change e self change dn c = Inr (self', effs)")
  case False
  with r have "self' = self"
    by (auto simp: manage_change_update_def Let_def
          split: async_result.splits option.splits if_splits)
  with inv show ?thesis by simp
next
  case True
  then obtain change dn c where m: "manage_classified_change e self change dn c = Inr (self', effs)"
    by blast
  obtain self1 effs1 where s1: "(if change_kind change = ''auto-refresh''
             then update_inhibited_snaps self change dn c
             else (self, [])) = (self1, effs1)"
    by (cases "(if change_kind change = ''auto-refresh''
             then update_inhibited_snaps self change dn c
             else (self, []))") auto
  have i1: "dialogs_inv self1"
    using s1 inv dialogs_inv_update_inhibited_snaps[OF inv, of change dn c]
    by (auto split: if_splits)
  from m s1 obtain self2 effs2 where
    s2: "update_dock_snaps e self1 change dn c = Inr (self2, effs2)"
    by (auto simp: manage_classified_change_def split: sum.splits)
  from update_dock_snaps_frame[OF s2] obtain t where t: "self2 = self1\<lparr>refreshing_snap_list := t\<rparr>" ..
  have "snaps self' = snaps self1 \<and> refresh_bar_container self' = refresh_bar_container self1
      \<and> next_dialog_ptr self' = next_dialog_ptr self1"
    using m s1 s2 t
    by (auto simp: manage_classified_change_def g_timeout_add_once_def Let_def
             split: if_splits)
  with i1 show ?thesis by (auto intro: dialogs_inv_frame)
qed

lemma dialogs_inv_refresh_inhibit_snap:
  assumes "dialogs_inv (fst acc)"
  shows "dialogs_inv (fst (refresh_inhibit_snap e acc snap))"
proof -
  obtain self sh sl effs where acc: "acc = (self, sh, sl, effs)" by (cases acc) auto
  with assms have inv: "dialogs_inv self" by simp
  show ?thesis
  proof (cases "snap_name snap")
    case None
    with inv show ?thesis by (simp add: acc refresh_inhibit_snap_def)
  next
    case (Some n)
    have "dialogs_inv (sdi_snap_modify (fst (add_snap self n)) n (\<lambda>s. s\<lparr>inhibited := True\<rparr>))"
      using dialogs_inv_add_snap[OF inv] by (rule dialogs_inv_modify) simp_all
    with Some show ?thesis
      by (simp add: acc refresh_inhibit_snap_def Let_def case_prod_beta)
  qed
qed

lemma dialogs_inv_manage_refresh_inhibit:
  assumes inv: "dialogs_inv self"
    and r: "manage_refresh_inhibit e self res = Inr (self', effs)"
  shows "dialogs_inv self'"
proof -
  have f: "dialogs_inv (fst acc) \<Longrightarrow>
        dialogs_inv (fst (foldl (refresh_inhibit_snap e) acc xs))" for acc xs
    by (induction xs arbitrary: acc) (simp_all add: dialogs_inv_refresh_inhibit_snap)
  from manage_refresh_inhibit_result[OF r]
  have "self' = self \<or>
      (\<exists>arr. self' = fst (foldl (refresh_inhibit_snap e) (self, False, [], []) arr))" .
  with inv f[of "(self, False, [], [])"] show ?thesis by auto
qed

lemma dialogs_inv_ignore_snap_cb:
  assumes "dialogs_inv self"
  shows "dialogs_inv (sdi_refresh_monitor_ignore_snap_cb self n)"
proof -
  have "dialogs_inv (sdi_snap_modify (fst (add_snap self n)) n (\<lambda>s. s\<lparr>ignored := True\<rparr>))"
    using dialogs_inv_add_snap[OF assms] by (rule dialogs_inv_modify) simp_all
  then show ?thesis
    by (simp add: sdi_refresh_monitor_ignore_snap_cb_def case_prod_beta)
qed

lemma dialogs_inv_dispatch:
  assumes inv: "dialogs_inv self"
    and r: "dispatch self ev = Inr (self', effs)"
  shows "dialogs_inv self'"
proof (cases ev)
  case (Notice_event n fr)
  with r inv show ?thesis by (auto simp: dispatch_def dest: notice_cb_state)
next
  case (Change_finished e res)
  with r inv show ?thesis
    by (auto simp: dispatch_def intro: dialogs_inv_manage_change_update)
next
  case (Timeout_fired source)
  with r have "snaps self' = snaps self \<and> refresh_bar_container self' = refresh_bar_container self
      \<and> next_dialog_ptr self' = next_dialog_ptr self"
    by (auto simp: dispatch_def refresh_change_def split: option.splits)
  with inv show ?thesis by (auto intro: dialogs_inv_frame)
next
  case (Snap_finished_begin data res)
  with r inv show ?thesis
    by (auto simp: dispatch_def intro: dialogs_inv_begin_application_refresh)
next
  case (Snap_finished_completed data res)
  with r inv show ?thesis by (auto simp: dispatch_def dest: show_snap_completed_state)
next
  case (Snaps_finished e res)
  with r inv show ?thesis
    by (auto simp: dispatch_def intro: dialogs_inv_manage_refresh_inhibit)
next
  case (Dialog_hidden d)
  with r inv show ?thesis
    by (auto simp: dispatch_def intro: dialogs_inv_close_dialog_cb split: if_splits)
next
  case (Ignore_snap n)
  with r inv show ?thesis
    by (auto simp: dispatch_def intro: dialogs_inv_ignore_snap_cb)
qed

lemma dialogs_inv_run:
  "dialogs_inv self \<Longrightarrow> run self evs = Inr (self', effs) \<Longrightarrow> dialogs_inv self'"
proof (induction evs arbitrary: self effs)
  case Nil
  then show ?case by simp
next
  case (Cons ev evs)
  from Cons.prems(2) obtain s1 e1 e2 where
    d: "dispatch self ev = Inr (s1, e1)" and r: "run s1 evs = Inr (self', e2)"
    by (auto split: sum.splits prod.splits)
  from dialogs_inv_dispatch[OF Cons.prems(1) d] have "dialogs_inv s1" .
  from Cons.IH[OF this r] show ?case .
qed

lemma dialogs_inv_init: "dialogs_inv sdi_refresh_monitor_init"
  by (simp add: dialogs_inv_def sdi_refresh_monitor_init_def)

lemma distinct_ptr_filter_name_le1:
  assumes "distinct (map dialog_ptr box)"
    and "\<And>d d'. d \<in> set box \<Longrightarrow> d' \<in> set box \<Longrightarrow> app_name d = app_name d' \<Longrightarrow> d = d'"
  shows "length (filter (\<lambda>d. app_name d = n) box) \<le> 1"
  using assms
proof (induction box)
  case Nil
  then show ?case by simp
next
  case (Cons a box)
  have ih: "length (filter (\<lambda>d. app_name d = n) box) \<le> 1"
    using Cons by simp
  show ?case
  proof (cases "app_name a = n")
    case False
    with ih show ?thesis by simp
  next
    case True
    have "app_name d \<noteq> n" if "d \<in> set box" for d
    proof
      assume "app_name d = n"
      with True Cons.prems(2)[of a d] that have "a = d" by simp
      with Cons.prems(1) that show False by auto
    qed
    then have "filter (\<lambda>d. app_name d = n) box = []" by (simp add: filter_empty_conv)
    with True show ?thesis by simp
  qed
qed

text \<open>
  C3. In every state that the monitor reaches from its initial state, and for
  every snap: at most one dialog of that snap is on screen; and when the
  query about the snap completes (with the snap, with an error or with
  nothing) while a dialog is bound to the snap, the handler creates and binds
  nothing: the monitor stays as it is.
\<close>

theorem one_dialog_per_snap:
  assumes "run sdi_refresh_monitor_init evs = Inr (self, effs)"
  shows "length (filter (\<lambda>d. app_name d = name) (refresh_bar_container self)) \<le> 1 \<and>
    (\<forall>data res snap dlg.
        snaps self name = Some snap \<and> dialog snap = Some dlg \<and>
        (case res of AsyncValue (Some s) \<Rightarrow> snap_name s | _ \<Rightarrow> data_snap_name data) = Some name
        \<longrightarrow> begin_application_refresh self data res = Inr (self, []))"
proof -
  have inv: "dialogs_inv self"
    using dialogs_inv_run[OF dialogs_inv_init assms] .
  have same: "d = d'"
    if "d \<in> set (refresh_bar_container self)" "d' \<in> set (refresh_bar_container self)"
       "app_name d = app_name d'" for d d'
    using dialogs_invD(3)[OF inv that(1)] dialogs_invD(3)[OF inv that(2)] that(3) by auto
  have p1: "length (filter (\<lambda>d. app_name d = name) (refresh_bar_container self)) \<le> 1"
    using dialogs_invD(1)[OF inv] same by (rule distinct_ptr_filter_name_le1)
  have p2: "begin_application_refresh self data res = Inr (self, [])"
    if "snaps self name = Some snap" "dialog snap = Some dlg"
       "(case res of AsyncValue (Some s) \<Rightarrow> snap_name s | _ \<Rightarrow> data_snap_name data) = Some name"
    for data res snap dlg
    using that add_snap_result(2)[OF that(1)]
    by (auto simp: begin_application_refresh_def
          split: async_result.splits gerror.splits option.splits)
  from p1 p2 show ?thesis by blast
qed




theorem one_dialog_per_snap_witness:
  "\<exists>self effs snap.
     run sdi_refresh_monitor_init slow_query_race = Inr (self, effs) \<and>
     snaps self ''firefox'' = Some snap \<and> dialog snap = Some firefox_dialog \<and>
     refresh_bar_container self = [firefox_dialog] \<and>
     length (filter (\<lambda>d. app_name d = ''firefox'') (refresh_bar_container self)) \<le> 1 \<and>
     begin_application_refresh self firefox_data (AsyncValue (Some firefox_snap)) = Inr (self, []) \<and>
     begin_application_refresh self firefox_data (AsyncError G_ERROR_OTHER) = Inr (self, [])"
proof -
  have "case run sdi_refresh_monitor_init slow_query_race of
          Inl f \<Rightarrow> False
        | Inr (self, effs) \<Rightarrow>
            (case snaps self ''firefox'' of
               None \<Rightarrow> False
             | Some snap \<Rightarrow> dialog snap = Some firefox_dialog) \<and>
            refresh_bar_container self = [firefox_dialog]"
    by code_simp
  then obtain self effs snap where
    r: "run sdi_refresh_monitor_init slow_query_race = Inr (self, effs)"
    and s: "snaps self ''firefox'' = Some snap" and d: "dialog snap = Some firefox_dialog"
    and b: "refresh_bar_container self = [firefox_dialog]"
    by (auto split: sum.splits option.splits)
  note th = one_dialog_per_snap[OF r, of "''firefox''"]
  from th have c: "length (filter (\<lambda>d. app_name d = ''firefox'') (refresh_bar_container self)) \<le> 1"
    by blast
  have k1: "(case AsyncValue (Some firefox_snap) of AsyncValue (Some s) \<Rightarrow> snap_name s
             | _ \<Rightarrow> data_snap_name firefox_data) = Some ''firefox''"
    by (simp add: firefox_snap_def)
  have k2: "(case AsyncError G_ERROR_OTHER of AsyncValue (Some s) \<Rightarrow> snap_name s
             | _ \<Rightarrow> data_snap_name firefox_data) = Some ''firefox''"
    by (simp add: firefox_data_def snap_refresh_data_new_def)
  from th s d k1 have b1:
    "begin_application_refresh self firefox_data (AsyncValue (Some firefox_snap)) = Inr (self, [])"
    by blast
  from th s d k2 have b2:
    "begin_application_refresh self firefox_data (AsyncError G_ERROR_OTHER) = Inr (self, [])"
    by blast
  from r s d b c b1 b2 show ?thesis by blast
qed



section \<open>Progress pushed to a dialog\<close>

lemma Doing_not_done: "task_status t = ''Doing'' \<Longrightarrow> \<not> status_is_done (task_status t)"
  by (simp add: status_is_done_def)

lemma count_done_tasks_eq:
  "count_done_tasks tasks dn cur =
     (dn + length (filter (\<lambda>t. status_is_done (task_status t)) tasks),
      case cur of
        Some t \<Rightarrow> Some t
      | None \<Rightarrow> find (\<lambda>t. task_status t = ''Doing'') tasks)"
proof (induction tasks arbitrary: dn cur)
  case Nil
  then show ?case by (simp split: option.splits)
next
  case (Cons task tasks)
  show ?case
  proof (cases "status_is_done (task_status task)")
    case True
    then have "task_status task \<noteq> ''Doing''" using Doing_not_done by blast
    with True Cons show ?thesis by (simp split: option.splits)
  next
    case False
    with Cons show ?thesis by (auto split: option.splits)
  qed
qed

text \<open>
  One round of the loop of \<open>update_inhibited_snaps\<close> while the change is
  neither done nor cancelled: the effects of the specification for that snap
  are appended, and the snap is marked ignored when it awaits its dialog.
\<close>

lemma update_inhibited_snap_step:
  "update_inhibited_snap change False False (self, effs) n =
     (case snaps self n of
        None \<Rightarrow> self
      | Some snap \<Rightarrow>
          if awaits_dialog snap
          then self\<lparr>snaps := (snaps self)(n \<mapsto> snap\<lparr>ignored := True\<rparr>)\<rparr>
          else self,
      effs @ spec_snap_effects self change n)"
proof (cases "snaps self n")
  case None
  then show ?thesis
    by (simp add: update_inhibited_snap_def find_snap_def spec_snap_effects_def)
next
  case (Some snap)
  show ?thesis
  proof (cases "inhibited snap \<and> \<not> hidden snap \<and> \<not> manually_hidden snap")
    case False
    with Some show ?thesis
      by (auto simp: update_inhibited_snap_def find_snap_def spec_snap_effects_def
            awaits_dialog_def)
  next
    case True
    show ?thesis
    proof (cases "dialog snap")
      case None
      with Some True show ?thesis
        by (simp add: update_inhibited_snap_def find_snap_def spec_snap_effects_def
              awaits_dialog_def sdi_snap_modify_def Let_def)
    next
      case (Some dlg)
      with \<open>snaps self n = Some snap\<close> True show ?thesis
        by (simp add: update_inhibited_snap_def find_snap_def spec_snap_effects_def
              awaits_dialog_def spec_progress_push_def count_done_tasks_eq Let_def
              split: option.splits)
    qed
  qed
qed

lemma mark_awaiting_facts:
  "mark_awaiting self D n = None \<longleftrightarrow> snaps self n = None"
  "snaps self n = Some snap \<Longrightarrow>
     mark_awaiting self D n = Some snap \<or> mark_awaiting self D n = Some (snap\<lparr>ignored := True\<rparr>)"
  "mark_awaiting self {} = snaps self"
  by (auto simp: mark_awaiting_def split: option.splits)

lemma spec_snap_effects_mark_awaiting:
  "spec_snap_effects (self\<lparr>snaps := mark_awaiting self D\<rparr>) change n =
   spec_snap_effects self change n"
  by (auto simp: spec_snap_effects_def mark_awaiting_def split: option.splits)

lemma mark_awaiting_insert:
  "(case mark_awaiting self D n of
      None \<Rightarrow> mark_awaiting self D
    | Some snap \<Rightarrow>
        if awaits_dialog snap then (mark_awaiting self D)(n \<mapsto> snap\<lparr>ignored := True\<rparr>)
        else mark_awaiting self D) =
   mark_awaiting self (insert n D)"
  by (rule ext) (auto simp: mark_awaiting_def awaits_dialog_def split: option.splits)

lemma foldl_update_inhibited_snap_running:
  "foldl (update_inhibited_snap change False False)
         (self\<lparr>snaps := mark_awaiting self D\<rparr>, effs) names =
     (self\<lparr>snaps := mark_awaiting self (D \<union> set names)\<rparr>,
      effs @ concat (map (spec_snap_effects self change) names))"
proof (induction names arbitrary: D effs)
  case Nil
  then show ?case by simp
next
  case (Cons n names)
  let ?s = "self\<lparr>snaps := mark_awaiting self D\<rparr>"
  have st: "(case snaps ?s n of
        None \<Rightarrow> ?s
      | Some snap \<Rightarrow>
          if awaits_dialog snap
          then ?s\<lparr>snaps := (snaps ?s)(n \<mapsto> snap\<lparr>ignored := True\<rparr>)\<rparr>
          else ?s) = self\<lparr>snaps := mark_awaiting self (insert n D)\<rparr>"
    using mark_awaiting_insert[of self D n]
    by (auto split: option.splits if_splits)
  have step: "update_inhibited_snap change False False (?s, effs) n =
      (self\<lparr>snaps := mark_awaiting self (insert n D)\<rparr>,
       effs @ spec_snap_effects self change n)"
    unfolding update_inhibited_snap_step st spec_snap_effects_mark_awaiting ..
  have "foldl (update_inhibited_snap change False False) (?s, effs) (n # names) =
      foldl (update_inhibited_snap change False False)
        (self\<lparr>snaps := mark_awaiting self (insert n D)\<rparr>,
         effs @ spec_snap_effects self change n) names"
    by (simp add: step)
  also have "\<dots> = (self\<lparr>snaps := mark_awaiting self (insert n D \<union> set names)\<rparr>,
      (effs @ spec_snap_effects self change n) @
      concat (map (spec_snap_effects self change) names))"
    by (rule Cons.IH)
  finally show ?case by simp
qed

text \<open>
  C7, amended. For the snaps named by an auto-refresh change that is neither
  done nor cancelled, in the order named: a name without a record, and a snap
  that is not inhibited or is hidden (by the daemon or by the user), is
  passed over; a snap that is inhibited, not hidden and has no dialog yet (as when it is seen for the
  first time) is marked ignored and queried, and nothing is pushed for it; a
  snap that is inhibited, not hidden and has its dialog gets the summary of
  the first task whose status is "Doing" pushed to that dialog with the
  number of done tasks and the number of all tasks (1 of 3 for the statuses
  Done, Doing, Do), and nothing when no task is "Doing". A task counts as done
  exactly when its status is one of Done, Abort, Error, Hold, Wait, Undone.
  Nothing else changes in the monitor.
\<close>

theorem progress_pushed_to_bound_dialog:
  assumes "change_data change = Some names"
  shows "update_inhibited_snaps self change False False =
      (self\<lparr>snaps := mark_awaiting self (set names)\<rparr>,
       concat (map (spec_snap_effects self change) names)) \<and>
    (\<forall>st. status_is_done st \<longleftrightarrow>
            st \<in> {''Done'', ''Abort'', ''Error'', ''Hold'', ''Wait'', ''Undone''})"
proof -
  have "foldl (update_inhibited_snap change False False)
         (self\<lparr>snaps := mark_awaiting self {}\<rparr>, []) names =
     (self\<lparr>snaps := mark_awaiting self ({} \<union> set names)\<rparr>,
      [] @ concat (map (spec_snap_effects self change) names))"
    by (rule foldl_update_inhibited_snap_running)
  then have "foldl (update_inhibited_snap change False False) (self, []) names =
     (self\<lparr>snaps := mark_awaiting self (set names)\<rparr>,
      concat (map (spec_snap_effects self change) names))"
    by (simp add: mark_awaiting_facts(3))
  with assms show ?thesis
    by (simp add: update_inhibited_snaps_def status_is_done_def)
qed

text \<open>
  C7, as stated, fails: for a snap that is seen for the first time nothing is
  pushed. Without a record the change with the statuses Done, Doing, Do has no
  effect at all; with a record but no dialog yet the only effect is the query
  that will create the dialog.
\<close>

theorem first_seen_snap_counterexample:
  "snd (update_inhibited_snaps sdi_refresh_monitor_init
          (change7 ''auto-refresh'' ''Doing'') False False) = [] \<and>
   snd (update_inhibited_snaps firefox_inhibited
          (change7 ''auto-refresh'' ''Doing'') False False) =
     [Snapd_client_get_snap_async ''firefox'' Begin_application_refresh firefox_data]"
  by code_simp

theorem progress_pushed_to_bound_dialog_witness:
  "change_data (change7 ''auto-refresh'' ''Doing'') = Some [''firefox''] \<and>
   update_inhibited_snaps firefox_shown (change7 ''auto-refresh'' ''Doing'') False False =
     (firefox_shown, [Set_n_tasks_progress firefox_dialog ''Mount'' 1 3]) \<and>
   snd (update_inhibited_snaps firefox_inhibited (change7 ''auto-refresh'' ''Doing'')
          False False) =
     [Snapd_client_get_snap_async ''firefox'' Begin_application_refresh firefox_data] \<and>
   map_option ignored
     (snaps (fst (update_inhibited_snaps firefox_inhibited
                    (change7 ''auto-refresh'' ''Doing'') False False)) ''firefox'') = Some True"
proof -
  let ?c = "change7 ''auto-refresh'' ''Doing''"
  have h: "change_data ?c = Some [''firefox'']" by (simp add: change7_def)
  note th = progress_pushed_to_bound_dialog[OF h, THEN conjunct1]
  have m: "mark_awaiting firefox_shown (set [''firefox'']) = snaps firefox_shown"
    by (rule ext)
       (simp add: mark_awaiting_def firefox_shown_def awaits_dialog_def sdi_snap_new_def
          sdi_refresh_monitor_init_def)
  have e: "concat (map (spec_snap_effects firefox_shown ?c) [''firefox'']) =
      [Set_n_tasks_progress firefox_dialog ''Mount'' 1 3]"
    by (simp add: spec_snap_effects_def spec_progress_push_def firefox_shown_def
          sdi_snap_new_def change7_def status_is_done_def sdi_refresh_monitor_init_def)
  have a: "update_inhibited_snaps firefox_shown ?c False False =
     (firefox_shown, [Set_n_tasks_progress firefox_dialog ''Mount'' 1 3])"
    unfolding th m e by simp
  have e2: "concat (map (spec_snap_effects firefox_inhibited ?c) [''firefox'']) =
      [Snapd_client_get_snap_async ''firefox'' Begin_application_refresh firefox_data]"
    by (simp add: spec_snap_effects_def firefox_inhibited_def firefox_data_def
          sdi_snap_new_def sdi_refresh_monitor_init_def)
  have b: "snd (update_inhibited_snaps firefox_inhibited ?c False False) =
     [Snapd_client_get_snap_async ''firefox'' Begin_application_refresh firefox_data]"
    unfolding th e2 by simp
  have c: "map_option ignored
     (snaps (fst (update_inhibited_snaps firefox_inhibited ?c False False)) ''firefox'') =
     Some True"
    unfolding th
    by (simp add: mark_awaiting_def firefox_inhibited_def awaits_dialog_def sdi_snap_new_def
          sdi_refresh_monitor_init_def)
  from h a b c show ?thesis by (intro conjI)
qed

section \<open>The grouped prompt for inhibited snaps\<close>

lemma marked_ignored_add_snap:
  "marked_ignored (fst (add_snap self n)) m = marked_ignored self m"
  "ignored (snd (add_snap self n)) = marked_ignored self n"
  by (auto simp: marked_ignored_def add_snap_def find_snap_def Let_def sdi_snap_new_def
        split: option.splits)

lemma marked_ignored_modify:
  assumes "\<And>s. ignored (f s) = ignored s"
  shows "marked_ignored (sdi_snap_modify self n f) m = marked_ignored self m"
  using assms by (auto simp: marked_ignored_def sdi_snap_modify_def split: option.splits)

lemma notify_kept:
  "notify (fst (add_snap self n)) = notify self"
  "notify (sdi_snap_modify self n f) = notify self"
  by (simp_all add: add_snap_def find_snap_def sdi_snap_modify_def Let_def split: option.splits)

lemma notify_check_forced_refresh_effects:
  "(\<forall>eff \<in> set (snd (notify_check_forced_refresh e obj snap snap_data)).
      \<exists>ob s t w. eff = Notify_pending_refresh_forced ob s t w) \<and>
   (obj = None \<longrightarrow> snd (notify_check_forced_refresh e obj snap snap_data) = [])"
  by (auto simp: notify_check_forced_refresh_def Let_def split: option.splits)

text \<open>
  One round of the loop of \<open>manage_refresh_inhibit\<close>: a snap without a name
  changes nothing; a snap with a name is appended to the list and raises the
  flag when it is not marked ignored. The signals added are forced-refresh
  signals, none at all while \<open>notify\<close> is NULL, and no snap changes its mark.
\<close>

lemma refresh_inhibit_snap_step:
  "\<exists>self' forced.
     refresh_inhibit_snap e (self, sh, sl, effs) snap =
       (self',
        sh \<or> (\<exists>n. snap_name snap = Some n \<and> \<not> marked_ignored self n),
        sl @ filter (\<lambda>s. snap_name s \<noteq> None) [snap],
        effs @ forced) \<and>
     (\<forall>eff \<in> set forced. \<exists>ob s t w. eff = Notify_pending_refresh_forced ob s t w) \<and>
     (notify self = None \<longrightarrow> forced = []) \<and>
     notify self' = notify self \<and>
     (\<forall>m. marked_ignored self' m = marked_ignored self m)"
proof (cases "snap_name snap")
  case None
  then show ?thesis by (simp add: refresh_inhibit_snap_def)
next
  case (Some n)
  let ?self' = "sdi_snap_modify (fst (add_snap self n)) n (\<lambda>s. s\<lparr>inhibited := True\<rparr>)"
  let ?forced = "snd (notify_check_forced_refresh e (notify ?self') snap
                        ((snd (add_snap self n))\<lparr>inhibited := True\<rparr>))"
  have 1: "refresh_inhibit_snap e (self, sh, sl, effs) snap =
       (?self', sh \<or> \<not> marked_ignored self n, sl @ [snap], effs @ ?forced)"
    using Some marked_ignored_add_snap(2)[of self n]
    by (auto simp: refresh_inhibit_snap_def Let_def case_prod_beta)
  have n: "notify ?self' = notify self" by (simp add: notify_kept)
  have 2: "\<forall>eff \<in> set ?forced. \<exists>ob s t w. eff = Notify_pending_refresh_forced ob s t w"
    using notify_check_forced_refresh_effects by blast
  have 3: "notify self = None \<longrightarrow> ?forced = []"
    using notify_check_forced_refresh_effects n by simp
  have 4: "\<forall>m. marked_ignored ?self' m = marked_ignored self m"
    by (simp add: marked_ignored_modify marked_ignored_add_snap)
  from 1 2 3 4 n Some show ?thesis by auto
qed

lemma foldl_refresh_inhibit_snap:
  "\<exists>self' forced.
     foldl (refresh_inhibit_snap e) (self, sh, sl, effs) xs =
       (self',
        sh \<or> (\<exists>s \<in> set xs. \<exists>n. snap_name s = Some n \<and> \<not> marked_ignored self n),
        sl @ filter (\<lambda>s. snap_name s \<noteq> None) xs,
        effs @ forced) \<and>
     (\<forall>eff \<in> set forced. \<exists>ob s t w. eff = Notify_pending_refresh_forced ob s t w) \<and>
     (notify self = None \<longrightarrow> forced = []) \<and>
     notify self' = notify self \<and>
     (\<forall>m. marked_ignored self' m = marked_ignored self m)"
proof (induction xs arbitrary: self sh sl effs)
  case Nil
  then show ?case by simp
next
  case (Cons x xs)
  let ?sh1 = "sh \<or> (\<exists>n. snap_name x = Some n \<and> \<not> marked_ignored self n)"
  let ?sl1 = "sl @ filter (\<lambda>s. snap_name s \<noteq> None) [x]"
  from refresh_inhibit_snap_step[of e self sh sl effs x] obtain s1 f1 where
    st: "refresh_inhibit_snap e (self, sh, sl, effs) x = (s1, ?sh1, ?sl1, effs @ f1)"
    and w1: "\<forall>eff \<in> set f1. \<exists>ob s t w. eff = Notify_pending_refresh_forced ob s t w"
    and e1: "notify self = None \<longrightarrow> f1 = []"
    and n1: "notify s1 = notify self"
    and m1: "\<forall>m. marked_ignored s1 m = marked_ignored self m"
    by (elim exE conjE) (rule that)
  from Cons.IH[of s1 ?sh1 ?sl1 "effs @ f1"] obtain s2 f2 where
    fl: "foldl (refresh_inhibit_snap e) (s1, ?sh1, ?sl1, effs @ f1) xs =
       (s2,
        ?sh1 \<or> (\<exists>s \<in> set xs. \<exists>n. snap_name s = Some n \<and> \<not> marked_ignored s1 n),
        ?sl1 @ filter (\<lambda>s. snap_name s \<noteq> None) xs,
        (effs @ f1) @ f2)"
    and w2: "\<forall>eff \<in> set f2. \<exists>ob s t w. eff = Notify_pending_refresh_forced ob s t w"
    and e2: "notify s1 = None \<longrightarrow> f2 = []"
    and n2: "notify s2 = notify s1"
    and m2: "\<forall>m. marked_ignored s2 m = marked_ignored s1 m"
    by (elim exE conjE) (rule that)
  have a: "foldl (refresh_inhibit_snap e) (self, sh, sl, effs) (x # xs) =
       (s2,
        sh \<or> (\<exists>s \<in> set (x # xs). \<exists>n. snap_name s = Some n \<and> \<not> marked_ignored self n),
        sl @ filter (\<lambda>s. snap_name s \<noteq> None) (x # xs),
        effs @ (f1 @ f2))"
    using st fl m1 by auto
  have b: "\<forall>eff \<in> set (f1 @ f2). \<exists>ob s t w. eff = Notify_pending_refresh_forced ob s t w"
    using w1 w2 by auto
  have c: "notify self = None \<longrightarrow> f1 @ f2 = []"
    using e1 e2 n1 by simp
  have d: "notify s2 = notify self" using n1 n2 by simp
  have f: "\<forall>m. marked_ignored s2 m = marked_ignored self m"
    using m1 m2 by simp
  from a b c d f show ?case
    by (intro exI[of _ s2] exI[of _ "f1 @ f2"] conjI)
qed

text \<open>
  C8, amended. When the query for the inhibited snaps completes with a list
  that is not empty, the handler emits, exactly when at least one returned
  snap that has a name is not marked ignored, one pending-refresh signal whose
  list holds every returned snap that has a name, in the order returned.
  Snaps returned without a name are skipped: they are not in the list and do
  not make the signal fire. So when every returned snap has a name the list
  holds every returned snap and the signal fires exactly when one of them is
  not marked ignored. Before that signal there are only forced-refresh
  signals on the \<open>SdiNotify\<close> object, none while \<open>notify\<close> is NULL.
\<close>

theorem group_prompt_lists_named_snaps:
  assumes "returned \<noteq> []"
  shows "(\<exists>self' forced.
     manage_refresh_inhibit e self (AsyncValue (Some returned)) =
       Inr (self',
            forced @
            (if \<exists>s \<in> set returned. \<exists>n. snap_name s = Some n \<and> \<not> marked_ignored self n
             then [Notify_pending_refresh (filter (\<lambda>s. snap_name s \<noteq> None) returned)]
             else [])) \<and>
     (\<forall>eff \<in> set forced. \<exists>ob s t w. eff = Notify_pending_refresh_forced ob s t w) \<and>
     (notify self = None \<longrightarrow> forced = [])) \<and>
    ((\<forall>s \<in> set returned. snap_name s \<noteq> None) \<longrightarrow>
     (\<exists>self' forced.
        manage_refresh_inhibit e self (AsyncValue (Some returned)) =
          Inr (self',
               forced @
               (if \<exists>s \<in> set returned. \<not> marked_ignored self (the (snap_name s))
                then [Notify_pending_refresh returned]
                else [])) \<and>
        (\<forall>eff \<in> set forced. \<exists>ob s t w. eff = Notify_pending_refresh_forced ob s t w) \<and>
        (notify self = None \<longrightarrow> forced = [])))"
proof -
  let ?fires = "\<exists>s \<in> set returned. \<exists>n. snap_name s = Some n \<and> \<not> marked_ignored self n"
  let ?named = "filter (\<lambda>s. snap_name s \<noteq> None) returned"
  from foldl_refresh_inhibit_snap[of e self False "[]" "[]" returned] obtain self' forced where
    fl: "foldl (refresh_inhibit_snap e) (self, False, [], []) returned =
       (self', ?fires, ?named, forced)"
    and w: "\<forall>eff \<in> set forced. \<exists>ob s t w. eff = Notify_pending_refresh_forced ob s t w"
    and n: "notify self = None \<longrightarrow> forced = []"
    by auto
  from assms fl have m: "manage_refresh_inhibit e self (AsyncValue (Some returned)) =
       Inr (self', forced @ (if ?fires then [Notify_pending_refresh ?named] else []))"
    by (simp add: manage_refresh_inhibit_def)
  have general: "\<exists>self' forced.
     manage_refresh_inhibit e self (AsyncValue (Some returned)) =
       Inr (self', forced @ (if ?fires then [Notify_pending_refresh ?named] else [])) \<and>
     (\<forall>eff \<in> set forced. \<exists>ob s t w. eff = Notify_pending_refresh_forced ob s t w) \<and>
     (notify self = None \<longrightarrow> forced = [])"
    using m w n by (intro exI[of _ self'] exI[of _ forced] conjI)
  have named: "\<exists>self' forced.
        manage_refresh_inhibit e self (AsyncValue (Some returned)) =
          Inr (self',
               forced @
               (if \<exists>s \<in> set returned. \<not> marked_ignored self (the (snap_name s))
                then [Notify_pending_refresh returned]
                else [])) \<and>
        (\<forall>eff \<in> set forced. \<exists>ob s t w. eff = Notify_pending_refresh_forced ob s t w) \<and>
        (notify self = None \<longrightarrow> forced = [])"
    if all: "\<forall>s \<in> set returned. snap_name s \<noteq> None"
  proof -
    from all have 1: "?named = returned" by (simp add: filter_id_conv)
    from all have 2: "?fires \<longleftrightarrow> (\<exists>s \<in> set returned. \<not> marked_ignored self (the (snap_name s)))"
      by force
    from m have "manage_refresh_inhibit e self (AsyncValue (Some returned)) =
          Inr (self',
               forced @
               (if \<exists>s \<in> set returned. \<not> marked_ignored self (the (snap_name s))
                then [Notify_pending_refresh returned]
                else []))"
      unfolding 1 2 .
    with w n show ?thesis by (intro exI[of _ self'] exI[of _ forced] conjI)
  qed
  from general named show ?thesis by (intro conjI impI)
qed

text \<open>
  C8, as stated, fails for a returned snap without a name: it is left out of
  the list, and when it is the only one returned no signal fires although it
  is not marked ignored.
\<close>

theorem nameless_snap_counterexample:
  "\<not> isl (manage_refresh_inhibit env0 sdi_refresh_monitor_init
            (AsyncValue (Some [unnamed_snap, firefox_snap]))) \<and>
   snd (projr (manage_refresh_inhibit env0 sdi_refresh_monitor_init
                 (AsyncValue (Some [unnamed_snap, firefox_snap])))) =
     [Notify_pending_refresh [firefox_snap]] \<and>
   \<not> isl (manage_refresh_inhibit env0 sdi_refresh_monitor_init
            (AsyncValue (Some [unnamed_snap]))) \<and>
   snd (projr (manage_refresh_inhibit env0 sdi_refresh_monitor_init
                 (AsyncValue (Some [unnamed_snap])))) = []"
  by code_simp

theorem group_prompt_lists_named_snaps_witness:
  "[firefox_snap, vlc_snap] \<noteq> [] \<and>
   (\<exists>self'.
      manage_refresh_inhibit env0 vlc_ignored (AsyncValue (Some [firefox_snap, vlc_snap])) =
        Inr (self', [Notify_pending_refresh [firefox_snap, vlc_snap]])) \<and>
   (\<exists>self'.
      manage_refresh_inhibit env0 vlc_ignored (AsyncValue (Some [vlc_snap])) = Inr (self', []))"
proof -
  have ne: "[firefox_snap, vlc_snap] \<noteq> []" "[vlc_snap] \<noteq> []" by simp_all
  have ig: "marked_ignored vlc_ignored ''vlc''" "\<not> marked_ignored vlc_ignored ''firefox''"
    by (simp_all add: marked_ignored_def vlc_ignored_def sdi_refresh_monitor_ignore_snap_cb_def
          add_snap_def find_snap_def sdi_snap_new_def sdi_snap_modify_def
          sdi_refresh_monitor_init_def Let_def)
  have nn: "notify vlc_ignored = None"
    by (simp add: vlc_ignored_def sdi_refresh_monitor_ignore_snap_cb_def case_prod_beta
          notify_kept sdi_refresh_monitor_init_def)
  have nm: "snap_name firefox_snap = Some ''firefox''" "snap_name vlc_snap = Some ''vlc''"
    by (simp_all add: firefox_snap_def vlc_snap_def)
  have c1: "\<exists>s \<in> set [firefox_snap, vlc_snap]. \<exists>n. snap_name s = Some n \<and> \<not> marked_ignored vlc_ignored n"
    using ig nm by simp
  have c2: "\<not> (\<exists>s \<in> set [vlc_snap]. \<exists>n. snap_name s = Some n \<and> \<not> marked_ignored vlc_ignored n)"
    using ig nm by simp
  have f1: "filter (\<lambda>s. snap_name s \<noteq> None) [firefox_snap, vlc_snap] = [firefox_snap, vlc_snap]"
    using nm by simp
  note th1 = group_prompt_lists_named_snaps[OF ne(1), of env0 vlc_ignored, THEN conjunct1]
  note th2 = group_prompt_lists_named_snaps[OF ne(2), of env0 vlc_ignored, THEN conjunct1]
  from th1 nn
  have a: "\<exists>self'.
      manage_refresh_inhibit env0 vlc_ignored (AsyncValue (Some [firefox_snap, vlc_snap])) =
        Inr (self', [Notify_pending_refresh [firefox_snap, vlc_snap]])"
    unfolding f1 if_P[OF c1] by auto
  from th2 nn
  have b: "\<exists>self'.
      manage_refresh_inhibit env0 vlc_ignored (AsyncValue (Some [vlc_snap])) = Inr (self', [])"
    unfolding if_not_P[OF c2] by auto
  from ne(1) a b show ?thesis by (intro conjI)
qed

lemma remove_dialog_notify: "notify (remove_dialog self d) = notify self"
  by (simp add: remove_dialog_def Let_def split: option.splits)

lemma update_inhibited_snap_notify:
  "notify (fst (update_inhibited_snap change dn c acc n)) = notify (fst acc)"
  by (cases acc)
     (simp add: update_inhibited_snap_def Let_def remove_snap_def remove_dialog_notify
        notify_kept find_snap_def split: option.splits prod.splits)

lemma update_inhibited_snaps_notify:
  "notify (fst (update_inhibited_snaps self change dn c)) = notify self"
proof -
  have "notify (fst (foldl (update_inhibited_snap change dn c) acc ns)) = notify (fst acc)"
    for acc ns
    by (induction ns arbitrary: acc) (simp_all add: update_inhibited_snap_notify)
  from this[of "(self, [])"] show ?thesis
    by (simp add: update_inhibited_snaps_def split: option.splits)
qed

lemma manage_change_update_notify:
  assumes "manage_change_update e self res = Inr (self', effs)"
  shows "notify self' = notify self"
proof (cases "\<exists>change dn c. manage_classified_change e self change dn c = Inr (self', effs)")
  case False
  with assms have "self' = self"
    by (auto simp: manage_change_update_def Let_def
          split: async_result.splits option.splits if_splits)
  then show ?thesis by simp
next
  case True
  then obtain change dn c where m: "manage_classified_change e self change dn c = Inr (self', effs)"
    by blast
  obtain self1 effs1 where s1: "(if change_kind change = ''auto-refresh''
             then update_inhibited_snaps self change dn c
             else (self, [])) = (self1, effs1)"
    by (cases "(if change_kind change = ''auto-refresh''
             then update_inhibited_snaps self change dn c
             else (self, []))") auto
  have n1: "notify self1 = notify self"
    using s1 update_inhibited_snaps_notify[of self change dn c]
    by (auto split: if_splits)
  from m s1 obtain self2 effs2 where
    s2: "update_dock_snaps e self1 change dn c = Inr (self2, effs2)"
    by (auto simp: manage_classified_change_def split: sum.splits)
  from update_dock_snaps_frame[OF s2] obtain t where t: "self2 = self1\<lparr>refreshing_snap_list := t\<rparr>" ..
  have "notify self' = notify self1"
    using m s1 s2 t
    by (auto simp: manage_classified_change_def g_timeout_add_once_def Let_def
             split: if_splits)
  with n1 show ?thesis by simp
qed

lemma bind_new_dialog_notify: "notify (bind_new_dialog self n v i) = notify self"
  by (simp add: bind_new_dialog_def Let_def notify_kept add_dialog_to_main_window_def)

lemma dispatch_notify:
  assumes "dispatch self ev = Inr (self', effs)"
  shows "notify self' = notify self"
proof (cases ev)
  case (Notice_event n fr)
  with assms show ?thesis by (auto simp: dispatch_def dest: notice_cb_state)
next
  case (Change_finished e res)
  with assms show ?thesis by (auto simp: dispatch_def dest: manage_change_update_notify)
next
  case (Timeout_fired source)
  with assms show ?thesis
    by (auto simp: dispatch_def refresh_change_def split: option.splits)
next
  case (Snap_finished_begin data res)
  with assms have "begin_application_refresh self data res = Inr (self', effs)"
    by (simp add: dispatch_def)
  from begin_application_refresh_result[OF this] show ?thesis
    by (auto simp: notify_kept bind_new_dialog_notify split: option.splits)
next
  case (Snap_finished_completed data res)
  with assms show ?thesis by (auto simp: dispatch_def dest: show_snap_completed_state)
next
  case (Snaps_finished e res)
  with assms have "manage_refresh_inhibit e self res = Inr (self', effs)"
    by (simp add: dispatch_def)
  from manage_refresh_inhibit_result[OF this] obtain arr where
    "self' = self \<or> self' = fst (foldl (refresh_inhibit_snap e) (self, False, [], []) arr)"
    by blast
  moreover from foldl_refresh_inhibit_snap[of e self False "[]" "[]" arr]
  have "notify (fst (foldl (refresh_inhibit_snap e) (self, False, [], []) arr)) = notify self"
    by auto
  ultimately show ?thesis by auto
next
  case (Dialog_hidden d)
  with assms have "self' = close_dialog_cb self d"
    by (simp add: dispatch_def split: if_splits)
  then show ?thesis
    by (simp add: close_dialog_cb_def Let_def notify_kept remove_dialog_notify)
next
  case (Ignore_snap n)
  with assms have "self' = sdi_refresh_monitor_ignore_snap_cb self n"
    by (simp add: dispatch_def)
  then show ?thesis
    by (simp add: sdi_refresh_monitor_ignore_snap_cb_def case_prod_beta notify_kept)
qed

text \<open>
  No handler assigns \<open>notify\<close>: it is NULL in every state the monitor reaches,
  so no forced-refresh signal is emitted there.
\<close>

lemma notify_stays_NULL:
  "run sdi_refresh_monitor_init evs = Inr (self, effs) \<Longrightarrow> notify self = None"
proof -
  have "run s evs = Inr (self, effs) \<Longrightarrow> notify self = notify s" for s
  proof (induction evs arbitrary: s effs)
    case Nil
    then show ?case by simp
  next
    case (Cons ev evs)
    from Cons.prems obtain s1 e1 e2 where
      d: "dispatch s ev = Inr (s1, e1)" and r: "run s1 evs = Inr (self, e2)"
      by (auto split: sum.splits prod.splits)
    from Cons.IH[OF r] dispatch_notify[OF d] show ?case by simp
  qed
  then show "run sdi_refresh_monitor_init evs = Inr (self, effs) \<Longrightarrow> notify self = None"
    by (simp add: sdi_refresh_monitor_init_def)
qed

section \<open>The double quotient\<close>

lemma int_le_div_iff:
  fixes n :: int
  assumes "0 < b"
  shows "k \<le> n div b \<longleftrightarrow> k * b \<le> n"
proof
  assume "k \<le> n div b"
  then have "k * b \<le> n div b * b" using assms by (simp add: mult_right_mono)
  also have "n div b * b \<le> n"
    using div_mult_mod_eq[of n b] pos_mod_sign[OF assms, of n] by linarith
  finally show "k * b \<le> n" .
next
  assume "k * b \<le> n"
  then have "k * b div b \<le> n div b" using assms by (rule zdiv_mono1)
  with assms show "k \<le> n div b" by simp
qed

lemma int_div_less_iff:
  fixes n :: int
  assumes "0 < b"
  shows "n div b < k \<longleftrightarrow> n < k * b"
  using int_le_div_iff[OF assms, of k n] by linarith

lemma double_exponent_from_le:
  "p \<le> double_exponent_from k a b p"
  by (induction k arbitrary: p) (auto intro: Suc_leD)

lemma double_exponent_from_reaches:
  assumes "0 < a" "0 < b" "b < 2 ^ 32" "84 \<le> p + k"
  shows "2 ^ 52 \<le> a * 2 ^ double_exponent_from k a b p div b"
  using assms
proof (induction k arbitrary: p)
  case 0
  then have "84 \<le> p" by simp
  then have "(2::int) ^ 84 \<le> 2 ^ p" by (intro power_increasing) auto
  moreover have "(1::int) * 2 ^ p \<le> a * 2 ^ p"
    using \<open>0 < a\<close> by (intro mult_right_mono) auto
  moreover have "2 ^ 52 * b \<le> (2::int) ^ 84"
    using \<open>b < 2 ^ 32\<close> by simp
  ultimately have "2 ^ 52 * b \<le> a * 2 ^ p" by linarith
  then have "2 ^ 52 \<le> a * 2 ^ p div b"
    using int_le_div_iff[OF \<open>0 < b\<close>] by blast
  then show ?case by simp
next
  case (Suc k)
  show ?case
  proof (cases "a * 2 ^ p div b < 2 ^ 52")
    case True
    with Suc.IH[of "Suc p"] Suc.prems show ?thesis by simp
  next
    case False
    then show ?thesis by simp
  qed
qed

text \<open>Where the search moved on, the exponent before was too small.\<close>

lemma double_exponent_from_least:
  assumes "p < double_exponent_from k a b p"
  shows "a * 2 ^ (double_exponent_from k a b p - 1) div b < 2 ^ 52"
  using assms
proof (induction k arbitrary: p)
  case 0
  then show ?case by simp
next
  case (Suc k)
  show ?case
  proof (cases "a * 2 ^ p div b < 2 ^ 52")
    case False
    with Suc.prems show ?thesis by simp
  next
    case True
    then have eq: "double_exponent_from (Suc k) a b p = double_exponent_from k a b (Suc p)"
      by simp
    show ?thesis
    proof (cases "Suc p < double_exponent_from k a b (Suc p)")
      case True
      from Suc.IH[OF this] show ?thesis unfolding eq .
    next
      case False
      with double_exponent_from_le[of "Suc p" k a b]
      have "double_exponent_from k a b (Suc p) = Suc p" by simp
      with \<open>a * 2 ^ p div b < 2 ^ 52\<close> show ?thesis unfolding eq by simp
    qed
  qed
qed

lemma double_exponent_bounds:
  assumes "0 < a" "a < 2 ^ 32" "0 < b" "b < 2 ^ 32"
  shows "2 ^ 52 \<le> a * 2 ^ double_exponent a b div b"
    and "a * 2 ^ double_exponent a b div b < 2 ^ 53"
proof -
  let ?p = "double_exponent a b"
  show lo: "2 ^ 52 \<le> a * 2 ^ ?p div b"
    unfolding double_exponent_def
    using double_exponent_from_reaches[OF assms(1,3,4), of 0 84] by simp
  show "a * 2 ^ ?p div b < 2 ^ 53"
  proof (cases "0 < ?p")
    case False
    then have p0: "?p = 0" by simp
    have "a < 2 ^ 53 * b" using assms(2,3) by simp
    then have "a * 2 ^ ?p < 2 ^ 53 * b" unfolding p0 by simp
    then show ?thesis using int_div_less_iff[OF assms(3)] by blast
  next
    case True
    then have "a * 2 ^ (?p - 1) div b < 2 ^ 52"
      unfolding double_exponent_def by (rule double_exponent_from_least)
    then have "a * 2 ^ (?p - 1) < 2 ^ 52 * b"
      using int_div_less_iff[OF assms(3)] by blast
    moreover from True have "(2::int) ^ ?p = 2 * 2 ^ (?p - 1)"
      by (cases ?p) simp_all
    ultimately have "a * 2 ^ ?p < 2 ^ 53 * b" by simp
    then show ?thesis using int_div_less_iff[OF assms(3)] by blast
  qed
qed

lemma round_quotient_nearest:
  assumes "0 < b"
  shows "n div b \<le> round_quotient n b" "round_quotient n b \<le> n div b + 1"
    and "2 * \<bar>round_quotient n b * b - n\<bar> \<le> b"
proof -
  let ?q = "n div b" and ?r = "n mod b"
  have n: "n = ?q * b + ?r" by simp
  have r: "0 \<le> ?r" "?r < b" using assms by simp_all
  show "?q \<le> round_quotient n b" "round_quotient n b \<le> ?q + 1"
    by (simp_all add: round_quotient_def Let_def)
  show "2 * \<bar>round_quotient n b * b - n\<bar> \<le> b"
  proof (cases "b < 2 * ?r \<or> (2 * ?r = b \<and> odd ?q)")
    case True
    then have "round_quotient n b = ?q + 1" by (simp add: round_quotient_def Let_def)
    then have "round_quotient n b * b - n = b - ?r"
      using n by (simp add: algebra_simps)
    with True r show ?thesis by auto
  next
    case False
    then have "round_quotient n b = ?q" by (simp add: round_quotient_def Let_def)
    then have "round_quotient n b * b - n = - ?r"
      using n by (simp add: algebra_simps)
    with False r show ?thesis by auto
  qed
qed


lemma rounded_quotient_error:
  fixes m a b :: int
  assumes "0 < b" and "2 * \<bar>m * b - a * 2 ^ p\<bar> \<le> b"
  shows "\<bar>of_int m / 2 ^ p - of_int a / of_int b\<bar> \<le> (1 / 2 ^ (p + 1) :: rat)"
proof -
  define M A B P :: rat where "M = of_int m" and "A = of_int a" and "B = of_int b"
    and "P = 2 ^ p"
  have B: "0 < B" using assms(1) by (simp add: B_def)
  have P: "0 < P" by (simp add: P_def)
  have "(of_int (2 * \<bar>m * b - a * 2 ^ p\<bar>) :: rat) \<le> of_int b"
    using assms(2) by (simp only: of_int_le_iff)
  then have d: "2 * \<bar>M * B - A * P\<bar> \<le> B"
    by (simp add: M_def A_def B_def P_def)
  have eq: "M / P - A / B = (M * B - A * P) / (P * B)"
    using B P by (simp add: field_simps)
  have "\<bar>(M * B - A * P) / (P * B)\<bar> = \<bar>M * B - A * P\<bar> / (P * B)"
    using B P by (simp add: abs_mult)
  also have "\<dots> \<le> (B / 2) / (P * B)"
    using d B P by (intro divide_right_mono) simp_all
  also have "\<dots> = 1 / (2 * P)"
    using B by simp
  finally have "\<bar>M / P - A / B\<bar> \<le> 1 / (2 * P)"
    unfolding eq .
  then show ?thesis
    by (simp add: M_def A_def B_def P_def)
qed

text \<open>
  The double quotient of two nonzero counters is a number \<open>m / 2 ^ p\<close> with a
  significand of 53 bits, and it lies within half a unit in the last place
  of the exact quotient.
\<close>

lemma gdouble_quotient_nearest:
  assumes "x \<noteq> 0" "y \<noteq> 0"
  shows "\<exists>m p. gdouble_quotient x y = of_int m / 2 ^ p \<and> 2 ^ 52 \<le> m \<and> m \<le> 2 ^ 53 \<and>
           \<bar>of_int m / 2 ^ p - of_int (uint x) / of_int (uint y)\<bar> \<le> (1 / 2 ^ (p + 1) :: rat)"
proof -
  define a b where "a = uint x" and "b = uint y"
  define p where "p = double_exponent a b"
  define m where "m = round_quotient (a * 2 ^ p) b"
  have a: "0 < a" "a < 2 ^ 32" and b: "0 < b" "b < 2 ^ 32"
    using assms uint_lt2p[of x] uint_lt2p[of y]
    by (simp_all add: a_def b_def word_greater_zero_iff uint_0_iff order_less_le)
  have g: "gdouble_quotient x y = of_int m / 2 ^ p"
    using a b by (simp add: gdouble_quotient_def Let_def a_def b_def p_def m_def)
  from double_exponent_bounds[OF a b] round_quotient_nearest(1,2)[OF b(1), of "a * 2 ^ p"]
  have m: "2 ^ 52 \<le> m" "m \<le> 2 ^ 53" unfolding m_def p_def by linarith+
  from round_quotient_nearest(3)[OF b(1), of "a * 2 ^ p"]
  have "2 * \<bar>m * b - a * 2 ^ p\<bar> \<le> b" by (simp add: m_def)
  from rounded_quotient_error[OF b(1) this]
  have e: "\<bar>of_int m / 2 ^ p - of_int a / of_int b\<bar> \<le> (1 / 2 ^ (p + 1) :: rat)" .
  from g m e show ?thesis unfolding a_def b_def by blast
qed

lemma gdouble_quotient_examples:
  "gdouble_quotient 1 2 = 1 / 2"
  "gdouble_quotient 10 10 = 1"
  "gdouble_quotient 1 3 = 6004799503160661 / 18014398509481984"
  "gdouble_quotient 3 10 = 5404319552844595 / 18014398509481984"
  by code_simp+

section \<open>The aggregation pass\<close>

text \<open>
  \<open>update_dock_bar\<close> does what the specification says of one entry, unless
  an emission is due for an entry whose array is NULL.
\<close>

lemma update_dock_bar_refines:
  assumes "desktop_files entry = None \<longrightarrow> total_tasks entry = 0 \<or> spec_suppressed e entry"
  shows "update_dock_bar e entry =
     Inr (spec_entry_after e entry, spec_emission e entry (presentation_targets entry))"
proof (cases "total_tasks entry = 0")
  case True
  then show ?thesis
    by (simp add: update_dock_bar_def spec_entry_after_def spec_emission_def)
next
  case False
  show ?thesis
  proof (cases "spec_suppressed e entry")
    case True
    with False show ?thesis
      by (simp add: update_dock_bar_def spec_entry_after_def spec_emission_def
            spec_suppressed_def spec_fraction_def Let_def)
  next
    case sup: False
    with False assms obtain targets where t: "desktop_files entry = Some targets"
      by auto
    with False sup show ?thesis
      by (cases targets)
         (auto simp: update_dock_bar_def spec_entry_after_def spec_emission_def
            spec_suppressed_def spec_fraction_def presentation_targets_def Let_def)
  qed
qed

text \<open>
  In an aggregation pass every entry is handled as the specification says,
  in the order of the traversal, unless an emission is due for an entry whose
  array of targets is NULL.
\<close>

lemma aggregation_pass_refines:
  assumes "\<forall>(name, entry) \<in> set table.
             desktop_files entry = None \<longrightarrow> total_tasks entry = 0 \<or> spec_suppressed e entry"
  shows "foreach_update_dock_bar e table =
     Inr (map (\<lambda>(name, entry). (name, spec_entry_after e entry)) table,
          concat (map (\<lambda>(name, entry). spec_emission e entry (presentation_targets entry))
                      table))"
  using assms
proof (induction table)
  case Nil
  then show ?case by simp
next
  case (Cons p table)
  obtain name entry where p: "p = (name, entry)" by (cases p)
  with Cons.prems
  have t: "desktop_files entry = None \<longrightarrow> total_tasks entry = 0 \<or> spec_suppressed e entry"
    by simp
  from Cons have ih: "foreach_update_dock_bar e table =
     Inr (map (\<lambda>(name, entry). (name, spec_entry_after e entry)) table,
          concat (map (\<lambda>(name, entry). spec_emission e entry (presentation_targets entry))
                      table))"
    by simp
  show ?case
    by (simp add: p update_dock_bar_refines[OF t] ih)
qed

lemma aggregation_pass_example:
  "foreach_update_dock_bar env0 four_entries =
     Inr ([(''firefox'', \<lparr>total_tasks = 0, done_tasks = 0,
                           old_progress = gdouble_quotient 3 10, is_done = False,
                           desktop_files = Some [''firefox_firefox.desktop'']\<rparr>),
           (''vlc'', \<lparr>total_tasks = 0, done_tasks = 0, old_progress = gdouble_quotient 3 10,
                       is_done = False, desktop_files = Some [''vlc_vlc.desktop'']\<rparr>),
           (''gimp'', \<lparr>total_tasks = 0, done_tasks = 0, old_progress = 1, is_done = True,
                        desktop_files = Some [''gimp_gimp.desktop'', ''gimp_console.desktop'']\<rparr>),
           (''core'', \<lparr>total_tasks = 0, done_tasks = 0, old_progress = 1, is_done = True,
                        desktop_files = Some []\<rparr>)],
          [Launcher_entry_emit_update ''firefox_firefox.desktop'' (gdouble_quotient 3 10)
             True True,
           Launcher_entry_emit_update ''gimp_gimp.desktop'' 1 False False,
           Launcher_entry_emit_update ''gimp_console.desktop'' 1 False False])"
  by code_simp

text \<open>
  C4 fails in the code when the applications directory cannot be opened. The
  lookup then returns NULL, the entry of firefox is created with that NULL
  array, and after the tasks Done, Doing, Do are counted (3 tasks, 1 done, an
  emission is due) \<open>update_dock_bar\<close> dereferences the array: the pass ends the
  process instead of resetting the counters and emitting to the (no)
  targets captured. One change update from the initial state is enough.
\<close>

theorem aggregation_pass_NULL_targets:
  "update_dock_bar env_no_dir
     \<lparr>total_tasks = 3, done_tasks = 1, old_progress = - 1, is_done = False,
      desktop_files = None\<rparr> = Inl NULL_dereference \<and>
   isl (run sdi_refresh_monitor_init
          [Change_finished env_no_dir
             (AsyncValue (Some (change7 ''refresh-snap'' ''Doing'')))]) \<and>
   projl (run sdi_refresh_monitor_init
            [Change_finished env_no_dir
               (AsyncValue (Some (change7 ''refresh-snap'' ''Doing'')))]) = NULL_dereference"
  by code_simp

section \<open>Entries without targets\<close>

text \<open>
  When the applications directory cannot be opened the array of an entry is
  NULL, and \<open>update_dock_bar\<close> dereferences it as soon as an emission is due.
\<close>

lemma update_dock_bar_NULL_desktop_files:
  assumes "desktop_files entry = None" "total_tasks entry \<noteq> 0"
    "\<not> (gdouble_div e (done_tasks entry) (total_tasks entry) = old_progress entry \<and>
        \<not> is_done entry)"
  shows "update_dock_bar e entry = Inl NULL_dereference"
  using assms by (auto simp: update_dock_bar_def Let_def)







end
